theory Spec2Isabelle
  imports Main "HOL-Library.Word"
begin

unbundle bit_operations_syntax

section \<open>SHA-512/256 of GNU libmicrohttpd (microhttpd/sha512\_256.c)\<close>

text \<open>
  A shallow embedding of \<^verbatim>\<open>MHD_SHA512_256_init\<close>, \<^verbatim>\<open>sha512_256_transform\<close>,
  \<^verbatim>\<open>MHD_SHA512_256_update\<close> and \<^verbatim>\<open>MHD_SHA512_256_finish\<close>.
  \<^verbatim>\<open>uint64_t\<close> is \<open>64 word\<close>, \<^verbatim>\<open>uint8_t\<close> is \<open>8 word\<close>; memory that the code
  reads and writes bytewise (the context buffer, the input data, the digest) is a list of
  bytes. The compile-time switch \<^verbatim>\<open>MHD_FAVOR_SMALL_CODE\<close> is a boolean parameter
  \<open>small\<close> of the functions whose text it changes.
\<close>

type_synonym u8 = "8 word"
type_synonym u64 = "64 word"

subsection \<open>Constants and helpers of the headers\<close>

text \<open>
  Modelled from the spec: \<^verbatim>\<open>sha512_256.h\<close> is not among the sources. The spec's data
  model gives the context as eight 64-bit state words, a 128-byte block buffer and the byte
  counter split in a low-order counter and an overflow counter; the source file names the
  fields \<^verbatim>\<open>H\<close>, \<^verbatim>\<open>buffer\<close>, \<^verbatim>\<open>count\<close> and \<^verbatim>\<open>count_bits_hi\<close>.
  The eight words of \<^verbatim>\<open>H\<close> are a tuple; \<^verbatim>\<open>buffer\<close> is the byte view
  \<^verbatim>\<open>(uint8_t *) ctx->buffer\<close> that update and finish use.
\<close>

type_synonym hash = "u64 \<times> u64 \<times> u64 \<times> u64 \<times> u64 \<times> u64 \<times> u64 \<times> u64"

record Sha512_256Ctx =
  H :: hash
  buffer :: "u8 list"
  count :: u64
  count_bits_hi :: u64

text \<open>
  Modelled from the spec: \<^verbatim>\<open>SHA512_256_BLOCK_SIZE\<close> of \<^verbatim>\<open>sha512_256.h\<close> (not among
  the sources); the spec's glossary gives the block as 128 bytes, that is sixteen words of
  eight bytes (\<^verbatim>\<open>SHA512_256_BLOCK_SIZE_WORDS\<close>, \<^verbatim>\<open>SHA512_256_BYTES_IN_WORD\<close>).
\<close>

definition SHA512_256_BLOCK_SIZE :: nat where
  "SHA512_256_BLOCK_SIZE = 128"

text \<open>
  The source file defines \<^verbatim>\<open>SHA512_256_SIZE_OF_LEN_ADD\<close> as
  \<^verbatim>\<open>SHA512_256_SIZE_OF_LEN_ADD_BITS / 8\<close> with 128 bits.
\<close>

definition SHA512_256_SIZE_OF_LEN_ADD :: nat where
  "SHA512_256_SIZE_OF_LEN_ADD = 128 div 8"

text \<open>
  Modelled from the spec: \<^verbatim>\<open>_MHD_ROTR64\<close> of \<^verbatim>\<open>mhd_bithelpers.h\<close> (not among the
  sources) is the right-rotation of a 64-bit value, written with two shifts.
\<close>

definition ROTR64 :: "u64 \<Rightarrow> nat \<Rightarrow> u64" where
  "ROTR64 x n = drop_bit n x OR push_bit (64 - n) x"

text \<open>
  Modelled from the spec: \<^verbatim>\<open>_MHD_GET_64BIT_BE\<close> and \<^verbatim>\<open>_MHD_PUT_64BIT_BE\<close> of
  \<^verbatim>\<open>mhd_bithelpers.h\<close> (not among the sources) read and write a 64-bit value as eight
  bytes, most significant byte first, whatever the host byte order.
\<close>

definition GET_64BIT_BE :: "u8 list \<Rightarrow> u64" where
  "GET_64BIT_BE p = foldl (\<lambda>v b. push_bit 8 v OR ucast b) 0 (take 8 p)"

definition PUT_64BIT_BE :: "u64 \<Rightarrow> u8 list" where
  "PUT_64BIT_BE v = map (\<lambda>i. ucast (drop_bit (8 * (7 - i)) v)) [0..<8]"

text \<open>\<^verbatim>\<open>memcpy (dst + off, src, n)\<close> and \<^verbatim>\<open>memset (dst + off, v, n)\<close> on a byte list.\<close>

definition memcpy_at :: "u8 list \<Rightarrow> nat \<Rightarrow> u8 list \<Rightarrow> nat \<Rightarrow> u8 list" where
  "memcpy_at dst off src n = take off dst @ take n src @ drop (off + n) dst"

definition memset_at :: "u8 list \<Rightarrow> nat \<Rightarrow> u8 \<Rightarrow> nat \<Rightarrow> u8 list" where
  "memset_at dst off v n = take off dst @ replicate n v @ drop (off + n) dst"

subsection \<open>Initialisation\<close>

definition MHD_SHA512_256_init :: "Sha512_256Ctx \<Rightarrow> Sha512_256Ctx" where
  "MHD_SHA512_256_init ctx =
     ctx\<lparr>H := (0x22312194FC2BF72C, 0x9F555FA3C84C64C2, 0x2393B86B6F53B151,
               0x963877195940EABD, 0x96283EE2A88EFFE3, 0xBE5E1E2553863992,
               0x2B0199FC2C85B8AA, 0x0EB72DDC81C52CA2),
         count := 0,
         count_bits_hi := 0\<rparr>"

subsection \<open>The compression function\<close>

definition Ch :: "u64 \<Rightarrow> u64 \<Rightarrow> u64 \<Rightarrow> u64" where
  "Ch x y z = z XOR (x AND (y XOR z))"

definition Maj :: "u64 \<Rightarrow> u64 \<Rightarrow> u64 \<Rightarrow> u64" where
  "Maj x y z = (x AND y) XOR (z AND (x XOR y))"

definition SIG0 :: "u64 \<Rightarrow> u64" where
  "SIG0 x = ROTR64 x 28 XOR ROTR64 x 34 XOR ROTR64 x 39"

definition SIG1 :: "u64 \<Rightarrow> u64" where
  "SIG1 x = ROTR64 x 14 XOR ROTR64 x 18 XOR ROTR64 x 41"

definition sig0 :: "u64 \<Rightarrow> u64" where
  "sig0 x = ROTR64 x 1 XOR ROTR64 x 8 XOR drop_bit 7 x"

definition sig1 :: "u64 \<Rightarrow> u64" where
  "sig1 x = ROTR64 x 19 XOR ROTR64 x 61 XOR drop_bit 6 x"

text \<open>
  \<^verbatim>\<open>SHA2STEP64\<close> updates its arguments \<^verbatim>\<open>vD\<close> and \<^verbatim>\<open>vH\<close> in place and leaves
  the other six alone; the model returns the new \<^verbatim>\<open>(vD, vH)\<close>.
\<close>

definition SHA2STEP64 ::
  "u64 \<Rightarrow> u64 \<Rightarrow> u64 \<Rightarrow> u64 \<Rightarrow> u64 \<Rightarrow> u64 \<Rightarrow> u64 \<Rightarrow> u64 \<Rightarrow> u64 \<Rightarrow> u64 \<Rightarrow> u64 \<times> u64" where
  "SHA2STEP64 vA vB vC vD vE vF vG vH kt wt =
     (let vH1 = vH + (SIG1 vE + Ch vE vF vG + kt + wt);
          vD1 = vD + vH1;
          vH2 = vH1 + (SIG0 vA + Maj vA vB vC)
      in (vD1, vH2))"

definition GET_W_FROM_DATA :: "u8 list \<Rightarrow> nat \<Rightarrow> u64" where
  "GET_W_FROM_DATA buf t = GET_64BIT_BE (drop (8 * t) buf)"

definition Wgen :: "u64 list \<Rightarrow> nat \<Rightarrow> u64" where
  "Wgen w t = w ! ((t - 16) mod 16) + sig1 (w ! ((t - 2) mod 16))
              + w ! ((t - 7) mod 16) + sig0 (w ! ((t - 15) mod 16))"

text \<open>
  The round constants: the table \<^verbatim>\<open>K[80]\<close> of the small-code build; the unrolled build
  writes the same eighty values, in the same order, into its eighty steps.
\<close>

definition K :: "u64 list" where
  "K = [0x428A2F98D728AE22, 0x7137449123EF65CD, 0xB5C0FBCFEC4D3B2F, 0xE9B5DBA58189DBBC,
        0x3956C25BF348B538, 0x59F111F1B605D019, 0x923F82A4AF194F9B, 0xAB1C5ED5DA6D8118,
        0xD807AA98A3030242, 0x12835B0145706FBE, 0x243185BE4EE4B28C, 0x550C7DC3D5FFB4E2,
        0x72BE5D74F27B896F, 0x80DEB1FE3B1696B1, 0x9BDC06A725C71235, 0xC19BF174CF692694,
        0xE49B69C19EF14AD2, 0xEFBE4786384F25E3, 0x0FC19DC68B8CD5B5, 0x240CA1CC77AC9C65,
        0x2DE92C6F592B0275, 0x4A7484AA6EA6E483, 0x5CB0A9DCBD41FBD4, 0x76F988DA831153B5,
        0x983E5152EE66DFAB, 0xA831C66D2DB43210, 0xB00327C898FB213F, 0xBF597FC7BEEF0EE4,
        0xC6E00BF33DA88FC2, 0xD5A79147930AA725, 0x06CA6351E003826F, 0x142929670A0E6E70,
        0x27B70A8546D22FFC, 0x2E1B21385C26C926, 0x4D2C6DFC5AC42AED, 0x53380D139D95B3DF,
        0x650A73548BAF63DE, 0x766A0ABB3C77B2A8, 0x81C2C92E47EDAEE6, 0x92722C851482353B,
        0xA2BFE8A14CF10364, 0xA81A664BBC423001, 0xC24B8B70D0F89791, 0xC76C51A30654BE30,
        0xD192E819D6EF5218, 0xD69906245565A910, 0xF40E35855771202A, 0x106AA07032BBD1B8,
        0x19A4C116B8D2D0C8, 0x1E376C085141AB53, 0x2748774CDF8EEB99, 0x34B0BCB5E19B48A8,
        0x391C0CB3C5C95A63, 0x4ED8AA4AE3418ACB, 0x5B9CCA4F7763E373, 0x682E6FF3D6B2B8A3,
        0x748F82EE5DEFB2FC, 0x78A5636F43172F60, 0x84C87814A1F0AB72, 0x8CC702081A6439EC,
        0x90BEFFFA23631E28, 0xA4506CEBDE82BDE9, 0xBEF9A3F7B2C67915, 0xC67178F2E372532B,
        0xCA273ECEEA26619C, 0xD186B8C721C0C207, 0xEADA7DD6CDE0EB1E, 0xF57D4F7FEE6ED178,
        0x06F067AA72176FBA, 0x0A637DC5A2C898A6, 0x113F9804BEF90DAE, 0x1B710B35131C471B,
        0x28DB77F523047D84, 0x32CAAB7B40C72493, 0x3C9EBE0A15C9BEBC, 0x431D67C49C100D4C,
        0x4CC5D4BECB3E42B6, 0x597F299CFC657E2A, 0x5FCB6FAB3AD6FAEC, 0x6C44198C4A475817]"

text \<open>
  The expression passed as \<^verbatim>\<open>wt\<close> is an assignment: it stores into the cyclic buffer
  and yields what it stored, \<^verbatim>\<open>W[t] = GET_W_FROM_DATA (data, t)\<close> in the first sixteen
  steps and \<^verbatim>\<open>W[t & 15] = Wgen (W, t)\<close> in the other sixty-four.
\<close>

definition W_from_data :: "u8 list \<Rightarrow> nat \<Rightarrow> u64 list \<Rightarrow> u64 list" where
  "W_from_data data t W = W[t := GET_W_FROM_DATA data t]"

definition W_from_Wgen :: "nat \<Rightarrow> u64 list \<Rightarrow> u64 list" where
  "W_from_Wgen t W = W[t mod 16 := Wgen W t]"

text \<open>
  The default build: eighty \<^verbatim>\<open>SHA2STEP64\<close> lines whose argument order rotates with
  period eight (\<^verbatim>\<open>a b c d e f g h\<close>, \<^verbatim>\<open>h a b c d e f g\<close>, ...). \<open>STEPS8\<close> is one
  period, the eight lines for the steps \<open>t\<close> to \<open>t + 7\<close>; \<open>wset\<close> is the store of the
  \<^verbatim>\<open>wt\<close> argument.
\<close>

definition STEPS8 ::
  "(nat \<Rightarrow> u64 list \<Rightarrow> u64 list) \<Rightarrow> nat \<Rightarrow> hash \<times> u64 list \<Rightarrow> hash \<times> u64 list" where
  "STEPS8 wset t s =
     (case s of ((a, b, c, d, e, f, g, h), W) \<Rightarrow>
       let W = wset t W;
           (d, h) = SHA2STEP64 a b c d e f g h (K ! t) (W ! (t mod 16));
           W = wset (t + 1) W;
           (c, g) = SHA2STEP64 h a b c d e f g (K ! (t + 1)) (W ! ((t + 1) mod 16));
           W = wset (t + 2) W;
           (b, f) = SHA2STEP64 g h a b c d e f (K ! (t + 2)) (W ! ((t + 2) mod 16));
           W = wset (t + 3) W;
           (a, e) = SHA2STEP64 f g h a b c d e (K ! (t + 3)) (W ! ((t + 3) mod 16));
           W = wset (t + 4) W;
           (h, d) = SHA2STEP64 e f g h a b c d (K ! (t + 4)) (W ! ((t + 4) mod 16));
           W = wset (t + 5) W;
           (g, c) = SHA2STEP64 d e f g h a b c (K ! (t + 5)) (W ! ((t + 5) mod 16));
           W = wset (t + 6) W;
           (f, b) = SHA2STEP64 c d e f g h a b (K ! (t + 6)) (W ! ((t + 6) mod 16));
           W = wset (t + 7) W;
           (e, a) = SHA2STEP64 b c d e f g h a (K ! (t + 7)) (W ! ((t + 7) mod 16))
       in ((a, b, c, d, e, f, g, h), W))"

text \<open>
  The small-code build: \<^verbatim>\<open>SHA2STEP64RV\<close> runs \<^verbatim>\<open>SHA2STEP64\<close> on a copy of
  \<^verbatim>\<open>vH\<close> and then reassigns all eight variables.
\<close>

definition SHA2STEP64RV :: "hash \<Rightarrow> u64 \<Rightarrow> u64 \<Rightarrow> hash" where
  "SHA2STEP64RV v kt wt =
     (case v of (a, b, c, d, e, f, g, h) \<Rightarrow>
       let tmp_h = h;
           (d, tmp_h) = SHA2STEP64 a b c d e f g tmp_h kt wt
       in (tmp_h, a, b, c, d, e, f, g))"

text \<open>One pass of either \<^verbatim>\<open>for\<close> loop of the small-code build: the store, then the step.\<close>

definition STEP_RV ::
  "(nat \<Rightarrow> u64 list \<Rightarrow> u64 list) \<Rightarrow> nat \<Rightarrow> hash \<times> u64 list \<Rightarrow> hash \<times> u64 list" where
  "STEP_RV wset t s =
     (case s of (v, W) \<Rightarrow>
       let W = wset t W in (SHA2STEP64RV v (K ! t) (W ! (t mod 16)), W))"

text \<open>
  \<^verbatim>\<open>sha512_256_transform\<close>. The local array \<^verbatim>\<open>W[16]\<close> starts uninitialised (or, for
  unaligned input, as a raw copy of the block that is then decoded slot by slot); every slot
  is stored in the first sixteen steps before it is read, so the model starts it at zero.
\<close>

definition sha512_256_transform :: "bool \<Rightarrow> hash \<Rightarrow> u8 list \<Rightarrow> hash" where
  "sha512_256_transform small Hs data =
     (case Hs of (H0, H1, H2, H3, H4, H5, H6, H7) \<Rightarrow>
       let s = ((H0, H1, H2, H3, H4, H5, H6, H7), replicate 16 0);
           s = (if small
                then fold (STEP_RV W_from_Wgen) [16..<80]
                       (fold (STEP_RV (W_from_data data)) [0..<16] s)
                else fold (STEPS8 W_from_Wgen) [16, 24, 32, 40, 48, 56, 64, 72]
                       (fold (STEPS8 (W_from_data data)) [0, 8] s))
       in (case fst s of (a, b, c, d, e, f, g, h) \<Rightarrow>
             (H0 + a, H1 + b, H2 + c, H3 + d, H4 + e, H5 + f, H6 + g, H7 + h)))"

subsection \<open>Absorbing input\<close>

text \<open>
  The loop \<^verbatim>\<open>while (SHA512_256_BLOCK_SIZE <= length)\<close> of the update: it transforms
  the block at \<^verbatim>\<open>data\<close> and advances \<^verbatim>\<open>data\<close> by a block. It returns the state
  words and the input that is left.
\<close>

function update_blocks :: "bool \<Rightarrow> hash \<Rightarrow> u8 list \<Rightarrow> hash \<times> u8 list" where
  "update_blocks small Hs data =
     (if SHA512_256_BLOCK_SIZE \<le> length data
      then update_blocks small (sha512_256_transform small Hs data)
             (drop SHA512_256_BLOCK_SIZE data)
      else (Hs, data))"
  by pat_completeness auto
termination
  by (relation "measure (\<lambda>(small, Hs, data). length data)")
     (auto simp add: SHA512_256_BLOCK_SIZE_def)

declare update_blocks.simps [simp del]

text \<open>
  \<^verbatim>\<open>MHD_SHA512_256_update\<close>, in the order of its text. The argument \<^verbatim>\<open>length\<close>
  is the length of the list \<open>data\<close>, a \<^verbatim>\<open>size_t\<close> (of 64 bits here, the widest the
  64-bit counter can meet). The input is a list, so the assertion that \<^verbatim>\<open>data\<close> is not
  null unless \<^verbatim>\<open>length\<close> is zero holds by construction.

  First the counters: \<^verbatim>\<open>length\<close> is added to the 64-bit \<^verbatim>\<open>count\<close> with
  wrap-around, and what exceeds 61 bits is moved to \<^verbatim>\<open>count_bits_hi\<close>.
\<close>

definition update_count :: "nat \<Rightarrow> Sha512_256Ctx \<Rightarrow> Sha512_256Ctx" where
  "update_count len ctx =
     (let ctx = ctx\<lparr>count := count ctx + of_nat len\<rparr>;
          count_hi = drop_bit 61 (count ctx)
      in if count_hi \<noteq> 0
         then ctx\<lparr>count_bits_hi := count_bits_hi ctx + count_hi,
                  count := count ctx AND 0x1FFFFFFFFFFFFFFF\<rparr>
         else ctx)"

text \<open>
  Then the block \<^verbatim>\<open>if (0 != bytes_have)\<close>: a buffered partial block is completed from
  the input and transformed. The result is the context, the input that is left and the new
  \<^verbatim>\<open>bytes_have\<close>.
\<close>

definition update_fill ::
  "bool \<Rightarrow> nat \<Rightarrow> Sha512_256Ctx \<Rightarrow> u8 list \<Rightarrow> Sha512_256Ctx \<times> u8 list \<times> nat" where
  "update_fill small bytes_have ctx data =
     (if bytes_have \<noteq> 0
      then
        let bytes_left = SHA512_256_BLOCK_SIZE - bytes_have in
        if bytes_left \<le> length data
        then
          let ctx = ctx\<lparr>buffer := memcpy_at (buffer ctx) bytes_have data bytes_left\<rparr>;
              ctx = ctx\<lparr>H := sha512_256_transform small (H ctx) (buffer ctx)\<rparr>
          in (ctx, drop bytes_left data, 0)
        else (ctx, data, bytes_have)
      else (ctx, data, bytes_have))"

text \<open>
  The whole function: the zero-length shortcut (only without
  \<^verbatim>\<open>MHD_FAVOR_SMALL_CODE\<close>), the counters, the buffered block, the loop over the full
  blocks of the input, and the copy of an incomplete last block into the buffer.
\<close>

definition MHD_SHA512_256_update :: "bool \<Rightarrow> Sha512_256Ctx \<Rightarrow> u8 list \<Rightarrow> Sha512_256Ctx" where
  "MHD_SHA512_256_update small ctx data =
     (if \<not> small \<and> length data = 0 then ctx
      else
        let bytes_have = unat (count ctx AND of_nat (SHA512_256_BLOCK_SIZE - 1));
            ctx = update_count (length data) ctx;
            (ctx, data, bytes_have) = update_fill small bytes_have ctx data;
            (Hs, data) = update_blocks small (H ctx) data;
            ctx = ctx\<lparr>H := Hs\<rparr>
        in if length data \<noteq> 0
           then ctx\<lparr>buffer := memcpy_at (buffer ctx) bytes_have data (length data)\<rparr>
           else ctx)"

subsection \<open>Finalisation\<close>

text \<open>
  \<^verbatim>\<open>MHD_SHA512_256_finish\<close> in three phases: the padding up to the stored length
  (\<open>finish_pad\<close>), the transform of the final block (\<open>finish_transform\<close>), and the
  extraction of the digest with the erasure of the context. The two length words go to
  \<^verbatim>\<open>ctx->buffer + SHA512_256_BLOCK_SIZE_WORDS - 2\<close> and \<^verbatim>\<open>... - 1\<close>, pointers to
  words of eight bytes: the byte offsets \<open>8 * (16 - 2)\<close> and \<open>8 * (16 - 1)\<close>.
\<close>

definition finish_pad :: "bool \<Rightarrow> Sha512_256Ctx \<Rightarrow> Sha512_256Ctx" where
  "finish_pad small ctx =
     (let num_bits = push_bit 3 (count ctx);
          bytes_have = unat (count ctx AND of_nat (SHA512_256_BLOCK_SIZE - 1));
          ctx = ctx\<lparr>buffer := (buffer ctx)[bytes_have := 0x80]\<rparr>;
          bytes_have = bytes_have + 1;
          (ctx, bytes_have) =
            (if SHA512_256_BLOCK_SIZE - bytes_have < SHA512_256_SIZE_OF_LEN_ADD
             then
               let ctx = (if bytes_have < SHA512_256_BLOCK_SIZE
                          then ctx\<lparr>buffer := memset_at (buffer ctx) bytes_have 0
                                                (SHA512_256_BLOCK_SIZE - bytes_have)\<rparr>
                          else ctx);
                   ctx = ctx\<lparr>H := sha512_256_transform small (H ctx) (buffer ctx)\<rparr>
               in (ctx, 0)
             else (ctx, bytes_have));
          ctx = ctx\<lparr>buffer := memset_at (buffer ctx) bytes_have 0
                    (SHA512_256_BLOCK_SIZE - SHA512_256_SIZE_OF_LEN_ADD - bytes_have)\<rparr>;
          ctx = ctx\<lparr>buffer := memcpy_at (buffer ctx) (8 * (16 - 2))
                    (PUT_64BIT_BE (count_bits_hi ctx)) 8\<rparr>;
          ctx = ctx\<lparr>buffer := memcpy_at (buffer ctx) (8 * (16 - 1))
                    (PUT_64BIT_BE num_bits) 8\<rparr>
      in ctx)"

definition finish_transform :: "bool \<Rightarrow> Sha512_256Ctx \<Rightarrow> Sha512_256Ctx" where
  "finish_transform small ctx =
     (let ctx = finish_pad small ctx
      in ctx\<lparr>H := sha512_256_transform small (H ctx) (buffer ctx)\<rparr>)"

text \<open>\<^verbatim>\<open>memset (ctx, 0, sizeof(struct Sha512_256Ctx))\<close>.\<close>

definition memset_ctx_0 :: "Sha512_256Ctx \<Rightarrow> Sha512_256Ctx" where
  "memset_ctx_0 ctx =
     ctx\<lparr>H := (0, 0, 0, 0, 0, 0, 0, 0),
         buffer := memset_at (buffer ctx) 0 0 SHA512_256_BLOCK_SIZE,
         count := 0,
         count_bits_hi := 0\<rparr>"

text \<open>
  The result is the 32 bytes stored through \<^verbatim>\<open>digest\<close> and the context as it is left.
  Both ways of storing the digest (through the aligned temporary, or directly) store the
  same four big-endian words.
\<close>

definition MHD_SHA512_256_finish :: "bool \<Rightarrow> Sha512_256Ctx \<Rightarrow> u8 list \<times> Sha512_256Ctx" where
  "MHD_SHA512_256_finish small ctx =
     (let ctx = finish_transform small ctx;
          digest = (case H ctx of (H0, H1, H2, H3, H4, H5, H6, H7) \<Rightarrow>
                      PUT_64BIT_BE H0 @ PUT_64BIT_BE H1 @ PUT_64BIT_BE H2 @ PUT_64BIT_BE H3)
      in (digest, memset_ctx_0 ctx))"

subsection \<open>Reachable contexts\<close>

text \<open>
  A context is a C object, so its buffer has 128 bytes whatever they hold. A reachable
  context is one that \<^verbatim>\<open>MHD_SHA512_256_init\<close> produced, updated any number of times
  with inputs whose length fits \<^verbatim>\<open>size_t\<close>; \<^verbatim>\<open>SIZE_MAX\<close> is the one of a
  \<^verbatim>\<open>size_t\<close> of 64 bits.
\<close>

definition SIZE_MAX :: nat where
  "SIZE_MAX = 2 ^ 64 - 1"

inductive reachable :: "bool \<Rightarrow> Sha512_256Ctx \<Rightarrow> bool" for small :: bool where
  reach_init: "length (buffer ctx) = SHA512_256_BLOCK_SIZE \<Longrightarrow>
     reachable small (MHD_SHA512_256_init ctx)"
| reach_update: "reachable small ctx \<Longrightarrow> length data \<le> SIZE_MAX \<Longrightarrow>
     reachable small (MHD_SHA512_256_update small ctx data)"

text \<open>The context after init and one update per chunk, in order.\<close>

definition absorb :: "bool \<Rightarrow> Sha512_256Ctx \<Rightarrow> u8 list list \<Rightarrow> Sha512_256Ctx" where
  "absorb small ctx chunks = foldl (MHD_SHA512_256_update small) (MHD_SHA512_256_init ctx) chunks"

section \<open>Reference definitions of FIPS PUB 180-4\<close>

text \<open>
  The functions of the standard as the specification words them: rotation and shift
  (clause 3.2), \<open>Ch\<close>, \<open>Maj\<close> and the four sigma functions in their original form
  (clause 4.1.3), the message schedule as a direct recursion over \<open>t\<close> and the eighty rounds
  with \<open>T1\<close> and \<open>T2\<close> (clause 6.4.2). The source is compared with them below.
\<close>

definition fips_ROTR :: "nat \<Rightarrow> u64 \<Rightarrow> u64" where
  "fips_ROTR n x = word_rotr n x"

definition fips_SHR :: "nat \<Rightarrow> u64 \<Rightarrow> u64" where
  "fips_SHR n x = drop_bit n x"

definition fips_Ch :: "u64 \<Rightarrow> u64 \<Rightarrow> u64 \<Rightarrow> u64" where
  "fips_Ch x y z = (x AND y) XOR (NOT x AND z)"

definition fips_Maj :: "u64 \<Rightarrow> u64 \<Rightarrow> u64 \<Rightarrow> u64" where
  "fips_Maj x y z = (x AND y) XOR (x AND z) XOR (y AND z)"

definition fips_Sigma0 :: "u64 \<Rightarrow> u64" where
  "fips_Sigma0 x = fips_ROTR 28 x XOR fips_ROTR 34 x XOR fips_ROTR 39 x"

definition fips_Sigma1 :: "u64 \<Rightarrow> u64" where
  "fips_Sigma1 x = fips_ROTR 14 x XOR fips_ROTR 18 x XOR fips_ROTR 41 x"

definition fips_sigma0 :: "u64 \<Rightarrow> u64" where
  "fips_sigma0 x = fips_ROTR 1 x XOR fips_ROTR 8 x XOR fips_SHR 7 x"

definition fips_sigma1 :: "u64 \<Rightarrow> u64" where
  "fips_sigma1 x = fips_ROTR 19 x XOR fips_ROTR 61 x XOR fips_SHR 6 x"

text \<open>The value of a byte string read as a big-endian number.\<close>

definition be_nat :: "u8 list \<Rightarrow> nat" where
  "be_nat bs = foldl (\<lambda>n b. 256 * n + unat b) 0 bs"

definition fips_be64 :: "u8 list \<Rightarrow> u64" where
  "fips_be64 bs = of_nat (be_nat bs)"

function fips_W :: "u8 list \<Rightarrow> nat \<Rightarrow> u64" where
  "fips_W M t =
     (if t < 16 then fips_be64 (take 8 (drop (8 * t) M))
      else fips_W M (t - 16) + fips_sigma1 (fips_W M (t - 2))
           + fips_W M (t - 7) + fips_sigma0 (fips_W M (t - 15)))"
  by pat_completeness auto
termination
  by (relation "measure snd") auto

declare fips_W.simps [simp del]

definition fips_round :: "hash \<Rightarrow> u64 \<Rightarrow> u64 \<Rightarrow> hash" where
  "fips_round v kt wt =
     (case v of (a, b, c, d, e, f, g, h) \<Rightarrow>
       let T1 = h + fips_Sigma1 e + fips_Ch e f g + kt + wt;
           T2 = fips_Sigma0 a + fips_Maj a b c
       in (T1 + T2, a, b, c, d + T1, e, f, g))"

definition fips_rounds :: "u8 list \<Rightarrow> nat \<Rightarrow> hash \<Rightarrow> hash" where
  "fips_rounds M n v = fold (\<lambda>t v. fips_round v (K ! t) (fips_W M t)) [0..<n] v"

definition fips_compress :: "hash \<Rightarrow> u8 list \<Rightarrow> hash" where
  "fips_compress Hs M =
     (case Hs of (H0, H1, H2, H3, H4, H5, H6, H7) \<Rightarrow>
        case fips_rounds M 80 Hs of (a, b, c, d, e, f, g, h) \<Rightarrow>
          (H0 + a, H1 + b, H2 + c, H3 + d, H4 + e, H5 + f, H6 + g, H7 + h))"

text \<open>The initial hash value of plain SHA-512 (clause 5.3.5), for comparison.\<close>

definition fips_sha512_H0 :: "u64 list" where
  "fips_sha512_H0 = [0x6A09E667F3BCC908, 0xBB67AE8584CAA73B, 0x3C6EF372FE94F82B,
                     0xA54FF53A5F1D36F1, 0x510E527FADE682D1, 0x9B05688C2B3E6C1F,
                     0x1F83D9ABFB41BD6B, 0x5BE0CD19137E2179]"

text \<open>The message cut into full blocks; an incomplete last block is left out.\<close>

function chop128 :: "u8 list \<Rightarrow> u8 list list" where
  "chop128 M = (if length M < 128 then [] else take 128 M # chop128 (drop 128 M))"
  by pat_completeness auto
termination
  by (relation "measure length") auto

declare chop128.simps [simp del]

text \<open>Lower-case hexadecimal text of a byte string, as digests are printed.\<close>

definition hex_digit :: "nat \<Rightarrow> char" where
  "hex_digit n = ''0123456789abcdef'' ! n"

definition hex_encode :: "u8 list \<Rightarrow> string" where
  "hex_encode bs = concat (map (\<lambda>b. [hex_digit (unat b div 16), hex_digit (unat b mod 16)]) bs)"

section \<open>Auxiliary notions of the proofs\<close>

text \<open>
  The store of step \<open>t\<close> whatever the phase, and the invariant of the cyclic buffer before
  step \<open>t\<close>: slot \<open>i mod 16\<close> holds the schedule word \<open>i\<close> for the last sixteen steps.
\<close>

definition wset_all :: "u8 list \<Rightarrow> nat \<Rightarrow> u64 list \<Rightarrow> u64 list" where
  "wset_all data t W = (if t < 16 then W_from_data data t W else W_from_Wgen t W)"

definition W_inv :: "u8 list \<Rightarrow> nat \<Rightarrow> u64 list \<Rightarrow> bool" where
  "W_inv data t W \<longleftrightarrow>
     length W = 16 \<and> (\<forall>i<t. t \<le> i + 16 \<longrightarrow> W ! (i mod 16) = fips_W data i)"

text \<open>The incomplete last block that \<open>chop128\<close> leaves out.\<close>

definition rest128 :: "u8 list \<Rightarrow> u8 list" where
  "rest128 M = drop (length M - length M mod 128) M"

text \<open>
  The case of the update in which a buffered partial block is completed (the inner
  \<^verbatim>\<open>if (length >= bytes_left)\<close> is entered).
\<close>

definition upd_case_fill :: "Sha512_256Ctx \<Rightarrow> u8 list \<Rightarrow> bool" where
  "upd_case_fill ctx data \<longleftrightarrow>
     unat (count ctx AND 127) \<noteq> 0 \<and> 128 - unat (count ctx AND 127) \<le> length data"

text \<open>
  The invariant of absorbing: after the message \<open>M\<close> has been absorbed from the state
  \<open>H0\<close>, the state words are \<open>H0\<close> folded over the full blocks of \<open>M\<close>, the buffer
  begins with the rest of \<open>M\<close>, and the low-order counter agrees with the length of \<open>M\<close>
  modulo the block size.
\<close>

definition buffered :: "bool \<Rightarrow> hash \<Rightarrow> Sha512_256Ctx \<Rightarrow> u8 list \<Rightarrow> bool" where
  "buffered small H0 ctx M \<longleftrightarrow>
     length (buffer ctx) = 128
     \<and> H ctx = foldl (sha512_256_transform small) H0 (chop128 M)
     \<and> take (length M mod 128) (buffer ctx) = rest128 M
     \<and> unat (count ctx) mod 128 = length M mod 128"

text \<open>A context whose storage is all zero, the starting point of the examples.\<close>

definition zero_ctx :: Sha512_256Ctx where
  "zero_ctx = \<lparr>H = (0, 0, 0, 0, 0, 0, 0, 0), buffer = replicate 128 0,
                count = 0, count_bits_hi = 0\<rparr>"

text \<open>The context that has absorbed the three bytes of \<open>abc\<close> in one update.\<close>

definition example_ctx :: "bool \<Rightarrow> Sha512_256Ctx" where
  "example_ctx small =
     MHD_SHA512_256_update small (MHD_SHA512_256_init zero_ctx) [0x61, 0x62, 0x63]"

text \<open>The state words that \<^verbatim>\<open>MHD_SHA512_256_init\<close> stores, whatever the context held.\<close>

definition SHA512_256_IV :: hash where
  "SHA512_256_IV = H (MHD_SHA512_256_init zero_ctx)"

definition hash_words :: "hash \<Rightarrow> u64 list" where
  "hash_words Hs =
     (case Hs of (H0, H1, H2, H3, H4, H5, H6, H7) \<Rightarrow> [H0, H1, H2, H3, H4, H5, H6, H7])"

text \<open>
  The counter pair stands for \<open>T\<close> bytes: the low-order counter stays below \<open>2^61\<close> and
  the overflow counter counts units of \<open>2^61\<close> bytes, that is of \<open>2^64\<close> bits.
\<close>

definition counted :: "Sha512_256Ctx \<Rightarrow> nat \<Rightarrow> bool" where
  "counted ctx T \<longleftrightarrow>
     unat (count ctx) < 2 ^ 61 \<and> 2 ^ 61 * unat (count_bits_hi ctx) + unat (count ctx) = T"

text \<open>
  The inputs on which no counter wraps around: the bit length fits the 128-bit field, and
  either every single length leaves room for a low-order counter below \<open>2^61\<close>, or the
  whole message is shorter than \<open>2^64\<close> bytes.
\<close>

definition fits :: "u8 list list \<Rightarrow> bool" where
  "fits chunks \<longleftrightarrow>
     length (concat chunks) < 2 ^ 125
     \<and> ((\<forall>d\<in>set chunks. length d \<le> 2 ^ 64 - 2 ^ 61) \<or> length (concat chunks) < 2 ^ 64)"

text \<open>The only block of the padded empty message: \<open>0x80\<close>, then zeros, then the length 0.\<close>

definition empty_block :: "u8 list" where
  "empty_block = 0x80 # replicate 127 0"

section \<open>The compression function is the one of the standard\<close>

subsection \<open>The macros against the functions of the standard\<close>

lemma ROTR64_rotr:
  assumes "0 < n" and "n < 64"
  shows "ROTR64 x n = word_rotr n x"
proof (rule bit_word_eqI)
  fix i
  assume "i < LENGTH(64)"
  then have i: "i < 64" by simp
  show "bit (ROTR64 x n) i = bit (word_rotr n x) i"
  proof (cases "i + n < 64")
    case True
    with i assms show ?thesis
      by (auto simp add: ROTR64_def bit_simps bit_word_rotr_iff ac_simps)
  next
    case False
    with i assms have m: "(i + n) mod 64 = i + n - 64"
      by (simp add: mod_if)
    have "\<not> bit x (n + i)"
      using False bit_imp_le_length [of x "n + i"] by (auto simp add: ac_simps)
    with False i assms m show ?thesis
      by (auto simp add: ROTR64_def bit_simps bit_word_rotr_iff ac_simps)
  qed
qed

lemma SIG0_fips: "SIG0 x = fips_Sigma0 x"
  by (simp add: SIG0_def fips_Sigma0_def fips_ROTR_def ROTR64_rotr)

lemma SIG1_fips: "SIG1 x = fips_Sigma1 x"
  by (simp add: SIG1_def fips_Sigma1_def fips_ROTR_def ROTR64_rotr)

lemma sig0_fips: "sig0 x = fips_sigma0 x"
  by (simp add: sig0_def fips_sigma0_def fips_ROTR_def fips_SHR_def ROTR64_rotr)

lemma sig1_fips: "sig1 x = fips_sigma1 x"
  by (simp add: sig1_def fips_sigma1_def fips_ROTR_def fips_SHR_def ROTR64_rotr)

lemma Ch_fips: "Ch x y z = fips_Ch x y z"
  by (rule bit_word_eqI) (auto simp add: Ch_def fips_Ch_def bit_simps)

lemma Maj_fips: "Maj x y z = fips_Maj x y z"
  by (rule bit_word_eqI) (auto simp add: Maj_def fips_Maj_def bit_simps)

lemma SHA2STEP64RV_fips: "SHA2STEP64RV v kt wt = fips_round v kt wt"
  by (cases v)
     (simp add: SHA2STEP64RV_def SHA2STEP64_def fips_round_def Let_def
        SIG0_fips SIG1_fips Ch_fips Maj_fips ac_simps)

subsection \<open>Big-endian decoding\<close>

lemma be_step: "push_bit 8 (v :: u64) OR ucast (b :: u8) = 256 * v + ucast b"
proof -
  have "push_bit 8 v AND (ucast b :: u64) = 0"
    by (rule bit_word_eqI) (auto simp add: bit_simps dest: bit_imp_le_length)
  then have "push_bit 8 v OR (ucast b :: u64) = push_bit 8 v + ucast b"
    by (simp add: disjunctive_add_eq_or)
  also have "\<dots> = 256 * v + ucast b"
    by (simp add: push_bit_eq_mult)
  finally show ?thesis .
qed

lemma be_foldl:
  "foldl (\<lambda>v b. push_bit 8 v OR ucast b) (of_nat n :: u64) (bs :: u8 list)
     = of_nat (foldl (\<lambda>n b. 256 * n + unat b) n bs)"
proof (induction bs arbitrary: n)
  case Nil
  show ?case by simp
next
  case (Cons b bs)
  have "push_bit 8 (of_nat n :: u64) OR ucast b = of_nat (256 * n + unat b)"
    by (simp add: be_step)
  with Cons [of "256 * n + unat b"] show ?case
    by simp
qed

lemma GET_64BIT_BE_fips: "GET_64BIT_BE p = fips_be64 (take 8 p)"
  using be_foldl [of 0 "take 8 p"] by (simp add: GET_64BIT_BE_def fips_be64_def be_nat_def)

subsection \<open>The unrolled steps are the loop\<close>

lemma upt8: "[t..<t + 8] = [t, t + 1, t + 2, t + 3, t + 4, t + 5, t + 6, t + 7]"
  by (simp add: upt_rec [of t] upt_rec [of "Suc t"] upt_rec [of "Suc (Suc t)"]
        upt_rec [of "Suc (Suc (Suc t))"] upt_rec [of "Suc (Suc (Suc (Suc t)))"]
        upt_rec [of "Suc (Suc (Suc (Suc (Suc t))))"]
        upt_rec [of "Suc (Suc (Suc (Suc (Suc (Suc t)))))"]
        upt_rec [of "Suc (Suc (Suc (Suc (Suc (Suc (Suc t))))))"]
        upt_rec [of "Suc (Suc (Suc (Suc (Suc (Suc (Suc (Suc t)))))))"])

lemma STEPS8_fold: "STEPS8 wset t s = fold (STEP_RV wset) [t..<t + 8] s"
proof (cases s)
  case (Pair v W)
  show ?thesis
    unfolding Pair
    by (cases v)
       (simp add: upt8 STEPS8_def STEP_RV_def SHA2STEP64RV_def Let_def split: prod.split)
qed

lemma unrolled_first: "fold (STEPS8 wset) [0, 8] s = fold (STEP_RV wset) [0..<16] s"
proof -
  have "[0..<16] = [0..<0 + 8] @ [8..<8 + 8]"
    using upt_add_eq_append [of 0 8 8] by (simp del: upt_rec_numeral)
  then show ?thesis
    by (simp only: fold_append fold_simps STEPS8_fold o_apply id_apply)
qed

lemma unrolled_rest:
  "fold (STEPS8 wset) [16, 24, 32, 40, 48, 56, 64, 72] s = fold (STEP_RV wset) [16..<80] s"
proof -
  have "[16..<80] = [16..<16 + 8] @ [24..<24 + 8] @ [32..<32 + 8] @ [40..<40 + 8]
          @ [48..<48 + 8] @ [56..<56 + 8] @ [64..<64 + 8] @ [72..<72 + 8]"
    using upt_add_eq_append [of 16 24 56] upt_add_eq_append [of 24 32 48]
      upt_add_eq_append [of 32 40 40] upt_add_eq_append [of 40 48 32]
      upt_add_eq_append [of 48 56 24] upt_add_eq_append [of 56 64 16]
      upt_add_eq_append [of 64 72 8] upt_add_eq_append [of 72 72 8]
    by (simp del: upt_rec_numeral)
  then show ?thesis
    by (simp only: fold_append fold_simps STEPS8_fold o_apply id_apply)
qed

subsection \<open>The cyclic buffer holds the schedule\<close>

lemma W_inv_data:
  assumes "W_inv data t W" and "t < 16"
  shows "W_inv data (Suc t) (W_from_data data t W)"
    and "W_from_data data t W ! (t mod 16) = fips_W data t"
proof -
  have len: "length W = 16" using assms by (simp add: W_inv_def)
  have v: "GET_W_FROM_DATA data t = fips_W data t"
    using assms(2) by (simp add: GET_W_FROM_DATA_def GET_64BIT_BE_fips fips_W.simps [of data t])
  show "W_from_data data t W ! (t mod 16) = fips_W data t"
    using len assms(2) v by (simp add: W_from_data_def)
  show "W_inv data (Suc t) (W_from_data data t W)"
    unfolding W_inv_def
  proof (intro conjI allI impI)
    show "length (W_from_data data t W) = 16" using len by (simp add: W_from_data_def)
  next
    fix i assume i: "i < Suc t" "Suc t \<le> i + 16"
    show "W_from_data data t W ! (i mod 16) = fips_W data i"
    proof (cases "i = t")
      case True
      then show ?thesis using len assms(2) v by (simp add: W_from_data_def)
    next
      case False
      with i assms show ?thesis
        by (simp add: W_from_data_def W_inv_def)
    qed
  qed
qed

lemma W_inv_Wgen:
  assumes "W_inv data t W" and "16 \<le> t"
  shows "W_inv data (Suc t) (W_from_Wgen t W)"
    and "W_from_Wgen t W ! (t mod 16) = fips_W data t"
proof -
  have len: "length W = 16" using assms by (simp add: W_inv_def)
  have w: "W ! (i mod 16) = fips_W data i" if "i < t" "t \<le> i + 16" for i
    using assms(1) that by (simp add: W_inv_def)
  have v: "Wgen W t = fips_W data t"
    using assms(2) w [of "t - 16"] w [of "t - 2"] w [of "t - 7"] w [of "t - 15"]
    by (simp add: Wgen_def fips_W.simps [of data t] sig0_fips sig1_fips)
  show "W_from_Wgen t W ! (t mod 16) = fips_W data t"
    using len v by (simp add: W_from_Wgen_def)
  show "W_inv data (Suc t) (W_from_Wgen t W)"
    unfolding W_inv_def
  proof (intro conjI allI impI)
    show "length (W_from_Wgen t W) = 16" using len by (simp add: W_from_Wgen_def)
  next
    fix i assume i: "i < Suc t" "Suc t \<le> i + 16"
    show "W_from_Wgen t W ! (i mod 16) = fips_W data i"
    proof (cases "i = t")
      case True
      then show ?thesis using len v by (simp add: W_from_Wgen_def)
    next
      case False
      with i have lt: "i < t" and ge: "t \<le> i + 15" by simp_all
      have "i mod 16 \<noteq> t mod 16"
      proof
        assume "i mod 16 = t mod 16"
        then have "t mod 16 = i mod 16" by simp
        with lt have "16 dvd t - i"
          by (simp add: mod_eq_dvd_iff_nat)
        with lt have "16 \<le> t - i"
          by (auto dest: dvd_imp_le)
        with ge show False by simp
      qed
      then show ?thesis
        using w [of i] lt ge by (simp add: W_from_Wgen_def)
    qed
  qed
qed

lemma W_inv_step:
  assumes "W_inv data t W"
  shows "W_inv data (Suc t) (wset_all data t W)"
    and "wset_all data t W ! (t mod 16) = fips_W data t"
  using assms W_inv_data [of data t W] W_inv_Wgen [of data t W]
  by (auto simp add: wset_all_def)

lemma STEP_RV_all_fips:
  assumes "length W = 16"
  shows "\<exists>W'. fold (STEP_RV (wset_all data)) [0..<n] (v, W) = (fips_rounds data n v, W')
            \<and> W_inv data n W'"
proof (induction n)
  case 0
  show ?case using assms by (simp add: fips_rounds_def W_inv_def)
next
  case (Suc n)
  then obtain W' where
    W': "fold (STEP_RV (wset_all data)) [0..<n] (v, W) = (fips_rounds data n v, W')"
    and inv: "W_inv data n W'" by blast
  have "fold (STEP_RV (wset_all data)) [0..<Suc n] (v, W)
      = STEP_RV (wset_all data) n (fips_rounds data n v, W')"
    using W' by simp
  also have "\<dots> = (fips_rounds data (Suc n) v, wset_all data n W')"
    using W_inv_step(2) [OF inv]
    by (simp add: STEP_RV_def SHA2STEP64RV_fips fips_rounds_def)
  finally show ?case
    using W_inv_step(1) [OF inv] by blast
qed

lemma STEP_RV_data: "t < 16 \<Longrightarrow> STEP_RV (W_from_data data) t = STEP_RV (wset_all data) t"
  by (rule ext) (simp add: STEP_RV_def wset_all_def)

lemma STEP_RV_Wgen: "16 \<le> t \<Longrightarrow> STEP_RV W_from_Wgen t = STEP_RV (wset_all data) t"
  by (rule ext) (simp add: STEP_RV_def wset_all_def)

lemma small_loops:
  "fold (STEP_RV W_from_Wgen) [16..<80] (fold (STEP_RV (W_from_data data)) [0..<16] s)
     = fold (STEP_RV (wset_all data)) [0..<80] s"
proof -
  have a: "fold (STEP_RV (W_from_data data)) [0..<16] x
         = fold (STEP_RV (wset_all data)) [0..<16] x" for x
    by (rule fold_cong) (simp_all add: STEP_RV_data del: upt_rec_numeral)
  have b: "fold (STEP_RV W_from_Wgen) [16..<80] x
         = fold (STEP_RV (wset_all data)) [16..<80] x" for x
    by (rule fold_cong) (simp_all add: STEP_RV_Wgen del: upt_rec_numeral)
  have "[0..<80] = [0..<16] @ [16..<80]"
    using upt_add_eq_append [of 0 16 64] by (simp del: upt_rec_numeral)
  then show ?thesis
    by (simp add: a b del: upt_rec_numeral)
qed

subsection \<open>Both builds compute the compression function\<close>

lemma hash_exhaust:
  obtains H0 H1 H2 H3 H4 H5 H6 H7 where "(Hs :: hash) = (H0, H1, H2, H3, H4, H5, H6, H7)"
proof (cases Hs rule: prod_cases7)
  case (fields a b c d e f gh)
  then show ?thesis using that by (cases gh) simp
qed

lemma transform_fips: "sha512_256_transform small Hs data = fips_compress Hs data"
proof -
  obtain H0 H1 H2 H3 H4 H5 H6 H7 where Hs: "Hs = (H0, H1, H2, H3, H4, H5, H6, H7)"
    by (rule hash_exhaust)
  obtain W' where W': "fold (STEP_RV (wset_all data)) [0..<80] (Hs, replicate 16 0)
       = (fips_rounds data 80 Hs, W')"
    using STEP_RV_all_fips [of "replicate 16 0" data 80 Hs] by auto
  have s: "fold (STEP_RV W_from_Wgen) [16..<80]
             (fold (STEP_RV (W_from_data data)) [0..<16] (Hs, replicate 16 0))
           = (fips_rounds data 80 Hs, W')"
    by (simp only: small_loops W')
  have u: "fold (STEPS8 W_from_Wgen) [16, 24, 32, 40, 48, 56, 64, 72]
             (fold (STEPS8 (W_from_data data)) [0, 8] (Hs, replicate 16 0))
           = (fips_rounds data 80 Hs, W')"
    by (simp only: unrolled_first unrolled_rest s)
  show ?thesis
    unfolding sha512_256_transform_def fips_compress_def Hs
    by (simp only: prod.case Let_def s [unfolded Hs] u [unfolded Hs] if_cancel fst_conv)
qed

lemma cyclic_buffer_schedule:
  "snd (fold (STEP_RV (wset_all data)) [0..<Suc t] (v, replicate 16 0)) ! (t mod 16)
     = fips_W data t"
proof -
  obtain W' where
    f: "fold (STEP_RV (wset_all data)) [0..<Suc t] (v, replicate 16 0)
          = (fips_rounds data (Suc t) v, W')"
    and inv: "W_inv data (Suc t) W'"
    using STEP_RV_all_fips [of "replicate 16 0" data "Suc t" v] by auto
  from inv have "W' ! (t mod 16) = fips_W data t"
    by (simp add: W_inv_def)
  with f show ?thesis by simp
qed

text \<open>
  Claim C2. For every state of eight words and every block, in the unrolled build and in
  the small-code build, \<^verbatim>\<open>sha512_256_transform\<close> returns the value of the compression
  function of FIPS 180-4: the block read as sixteen big-endian words, the schedule extended
  by \<open>W t = W (t - 16) + \<sigma>1 (W (t - 2)) + W (t - 7) + \<sigma>0 (W (t - 15))\<close> modulo \<open>2^64\<close>,
  eighty rounds on the eight working variables, and the working variables added to the
  state word by word modulo \<open>2^64\<close>. Moreover the cyclic buffer of sixteen slots delivers
  the words of that schedule: after the store of any step \<open>t\<close>, slot \<open>t mod 16\<close> holds
  \<open>W t\<close> of the direct definition.
\<close>

theorem transform_is_fips_compression:
  "sha512_256_transform small Hs data = fips_compress Hs data
   \<and> (\<forall>t. snd (fold (STEP_RV (wset_all data)) [0..<Suc t] (Hs, replicate 16 0)) ! (t mod 16)
            = fips_W data t)"
  by (simp only: transform_fips cyclic_buffer_schedule simp_thms)

section \<open>Padding and big-endian encoding\<close>

lemma and_127: "unat (x AND (127 :: u64)) = unat x mod 128"
proof -
  have "(127 :: u64) = mask 7" by (simp add: mask_eq_exp_minus_1)
  then have "x AND 127 = take_bit 7 x" by (simp add: take_bit_eq_mask)
  then show ?thesis by (simp add: take_bit_eq_mod unat_mod)
qed

lemma bytes_have_less: "unat (x AND (127 :: u64)) < 128"
  by (simp add: and_127)

lemma length_PUT_64BIT_BE [simp]: "length (PUT_64BIT_BE v) = 8"
  by (simp add: PUT_64BIT_BE_def)

lemma put_0x80:
  assumes "length buf = 128" and "n < 128"
  shows "buf[n := 0x80] = take n buf @ 0x80 # drop (Suc n) buf"
  using assms by (simp add: upd_conv_take_nth_drop)

lemma pad_tail:
  assumes "length buf = 128" and "length hi = 8" and "length lo = 8" and "m \<le> 112"
  shows "memcpy_at (memcpy_at (memset_at buf m 0 (112 - m)) 112 hi 8) 120 lo 8
         = take m buf @ replicate (112 - m) 0 @ hi @ lo"
proof -
  have a: "memset_at buf m 0 (112 - m) = take m buf @ replicate (112 - m) 0 @ drop 112 buf"
    using assms by (simp add: memset_at_def)
  have b: "memcpy_at (take m buf @ replicate (112 - m) 0 @ drop 112 buf) 112 hi 8
        = take m buf @ replicate (112 - m) 0 @ hi @ drop 120 buf"
    using assms by (simp add: memcpy_at_def)
  have c: "memcpy_at (take m buf @ replicate (112 - m) 0 @ hi @ drop 120 buf) 120 lo 8
        = take m buf @ replicate (112 - m) 0 @ hi @ lo"
    using assms by (simp add: memcpy_at_def)
  show ?thesis
    by (simp only: a b c)
qed

lemma finish_pad_eq:
  assumes len: "length (buffer ctx) = 128"
  shows "finish_pad small ctx =
     (let n = unat (count ctx AND 127) in
      if n < 112
      then ctx\<lparr>buffer := take n (buffer ctx) @ 0x80 # replicate (111 - n) 0
                  @ PUT_64BIT_BE (count_bits_hi ctx) @ PUT_64BIT_BE (push_bit 3 (count ctx))\<rparr>
      else ctx\<lparr>H := sha512_256_transform small (H ctx)
                        (take n (buffer ctx) @ 0x80 # replicate (127 - n) 0),
               buffer := replicate 112 0
                  @ PUT_64BIT_BE (count_bits_hi ctx) @ PUT_64BIT_BE (push_bit 3 (count ctx))\<rparr>)"
proof -
  define n where "n = unat (count ctx AND 127)"
  have n: "n < 128" by (simp add: n_def bytes_have_less)
  define buf1 where "buf1 = (buffer ctx)[n := 0x80]"
  have buf1: "buf1 = take n (buffer ctx) @ 0x80 # drop (Suc n) (buffer ctx)"
    unfolding buf1_def using len n by (rule put_0x80)
  have len1: "length buf1 = 128" using len by (simp add: buf1_def)
  show ?thesis
  proof (cases "n < 112")
    case True
    have t: "take (Suc n) buf1 = take n (buffer ctx) @ [0x80]"
      using len n by (simp add: buf1)
    have "memcpy_at (memcpy_at (memset_at buf1 (Suc n) 0 (112 - Suc n)) 112
          (PUT_64BIT_BE (count_bits_hi ctx)) 8) 120 (PUT_64BIT_BE (push_bit 3 (count ctx))) 8
        = take (Suc n) buf1 @ replicate (112 - Suc n) 0
            @ PUT_64BIT_BE (count_bits_hi ctx) @ PUT_64BIT_BE (push_bit 3 (count ctx))"
      using True len1 by (intro pad_tail) simp_all
    then have "memcpy_at (memcpy_at (memset_at buf1 (Suc n) 0 (111 - n)) 112
          (PUT_64BIT_BE (count_bits_hi ctx)) 8) 120 (PUT_64BIT_BE (push_bit 3 (count ctx))) 8
        = take n (buffer ctx) @ 0x80 # replicate (111 - n) 0
            @ PUT_64BIT_BE (count_bits_hi ctx) @ PUT_64BIT_BE (push_bit 3 (count ctx))"
      by (simp add: t)
    with True show ?thesis
      by (simp add: finish_pad_def Let_def n_def [symmetric] buf1_def [symmetric]
            SHA512_256_BLOCK_SIZE_def SHA512_256_SIZE_OF_LEN_ADD_def)
  next
    case False
    define B where "B = take n (buffer ctx) @ 0x80 # replicate (127 - n) 0"
    have lenB: "length B = 128" using len n by (simp add: B_def)
    have "memcpy_at (memcpy_at (memset_at B 0 0 (112 - 0)) 112
          (PUT_64BIT_BE (count_bits_hi ctx)) 8) 120 (PUT_64BIT_BE (push_bit 3 (count ctx))) 8
        = take 0 B @ replicate (112 - 0) 0
            @ PUT_64BIT_BE (count_bits_hi ctx) @ PUT_64BIT_BE (push_bit 3 (count ctx))"
      using lenB by (intro pad_tail) simp_all
    then have tail: "memcpy_at (memcpy_at (memset_at B 0 0 112) 112
          (PUT_64BIT_BE (count_bits_hi ctx)) 8) 120 (PUT_64BIT_BE (push_bit 3 (count ctx))) 8
        = replicate 112 0
            @ PUT_64BIT_BE (count_bits_hi ctx) @ PUT_64BIT_BE (push_bit 3 (count ctx))"
      by simp
    show ?thesis
    proof (cases "n < 127")
      case True
      have "memset_at buf1 (Suc n) 0 (127 - n) = B"
        using len n True by (simp add: buf1 memset_at_def B_def)
      with True False tail show ?thesis
        by (simp add: finish_pad_def Let_def n_def [symmetric] buf1_def [symmetric]
              SHA512_256_BLOCK_SIZE_def SHA512_256_SIZE_OF_LEN_ADD_def B_def [symmetric])
    next
      case n127: False
      with n have n': "n = 127" by simp
      have "buf1 = B"
        using len by (simp add: buf1 B_def n')
      moreover have "take n (buffer ctx) @ [0x80] = B"
        by (simp add: B_def n')
      ultimately show ?thesis
        using n127 False tail
        by (simp add: finish_pad_def Let_def n_def [symmetric] buf1_def [symmetric]
              SHA512_256_BLOCK_SIZE_def SHA512_256_SIZE_OF_LEN_ADD_def)
    qed
  qed
qed

lemma be_nat_snoc: "be_nat (bs @ [b]) = 256 * be_nat bs + unat b"
  by (simp add: be_nat_def)

lemma be_nat_append: "be_nat (xs @ ys) = be_nat xs * 256 ^ length ys + be_nat ys"
proof (induction ys rule: rev_induct)
  case Nil
  show ?case by (simp add: be_nat_def)
next
  case (snoc y ys)
  have "be_nat (xs @ ys @ [y]) = 256 * be_nat (xs @ ys) + unat y"
    using be_nat_snoc [of "xs @ ys" y] by simp
  with snoc show ?case
    by (simp add: be_nat_snoc algebra_simps)
qed

lemma unat_split_byte:
  "unat (w :: u64) = 256 * unat (drop_bit 8 w) + unat (ucast w :: u8)"
proof -
  have "unat (ucast w :: u8) = unat w mod 256"
    by (simp add: unsigned_ucast_eq take_bit_eq_mod)
  moreover have "unat (drop_bit 8 w) = unat w div 256"
    by (simp add: drop_bit_eq_div unat_div)
  ultimately show ?thesis by simp
qed

lemma be_nat_PUT_prefix:
  "k \<le> 8 \<Longrightarrow>
   be_nat (map (\<lambda>i. ucast (drop_bit (8 * (7 - i)) (v :: u64)) :: u8) [0..<k])
     = unat (drop_bit (8 * (8 - k)) v)"
proof (induction k)
  case 0
  show ?case by (simp add: be_nat_def)
next
  case (Suc k)
  then have k: "k < 8" by simp
  have "8 * (8 - k) = 8 + 8 * (7 - k)"
    using k by simp
  then have d: "drop_bit (8 * (8 - k)) v = drop_bit 8 (drop_bit (8 * (7 - k)) v)"
    by (simp only: drop_bit_drop_bit)
  have s: "8 - Suc k = 7 - k" by simp
  show ?case
    using Suc.IH k unat_split_byte [of "drop_bit (8 * (7 - k)) v"]
    by (simp add: be_nat_snoc d s)
qed

lemma be_nat_PUT_64BIT_BE: "be_nat (PUT_64BIT_BE v) = unat v"
  using be_nat_PUT_prefix [of 8 v] by (simp add: PUT_64BIT_BE_def)

section \<open>Absorbing a message block by block\<close>

lemma fips_W_take: "fips_W (take 128 M) t = fips_W M t"
proof (induction M t rule: fips_W.induct)
  case (1 M t)
  show ?case
  proof (cases "t < 16")
    case True
    then have "take 8 (drop (8 * t) (take 128 M)) = take 8 (drop (8 * t) M)"
      by (simp add: drop_take min_def)
    with True show ?thesis
      by (simp add: fips_W.simps [of _ t])
  next
    case False
    with 1 show ?thesis
      by (simp add: fips_W.simps [of _ t])
  qed
qed

lemma transform_take:
  "sha512_256_transform small Hs (take 128 data) = sha512_256_transform small Hs data"
  by (simp add: transform_fips fips_compress_def fips_rounds_def fips_W_take)

lemma chop128_short: "length M < 128 \<Longrightarrow> chop128 M = []"
  by (simp add: chop128.simps [of M])

lemma chop128_block: "length b = 128 \<Longrightarrow> chop128 (b @ M) = b # chop128 M"
  by (simp add: chop128.simps [of "b @ M"])

lemma rest128_short: "length M < 128 \<Longrightarrow> rest128 M = M"
  by (simp add: rest128_def)

lemma rest128_block: "length b = 128 \<Longrightarrow> rest128 (b @ M) = rest128 M"
  by (simp add: rest128_def)

lemma length_rest128: "length (rest128 M) = length M mod 128"
  by (simp add: rest128_def)

lemma chop128_unique:
  assumes "\<forall>b\<in>set bs. length b = 128" and "length r < 128"
  shows "chop128 (concat bs @ r) = bs" and "rest128 (concat bs @ r) = r"
  using assms
  by (induction bs) (simp_all add: chop128_short chop128_block rest128_short rest128_block)

lemma chop128_decomp:
  "M = concat (chop128 M) @ rest128 M \<and> (\<forall>b\<in>set (chop128 M). length b = 128)"
proof (induction M rule: chop128.induct)
  case (1 M)
  show ?case
  proof (cases "length M < 128")
    case True
    then show ?thesis by (simp add: chop128_short rest128_short)
  next
    case False
    then have M: "M = take 128 M @ drop 128 M" and l: "length (take 128 M) = 128"
      by simp_all
    have c: "chop128 M = take 128 M # chop128 (drop 128 M)"
      using False by (simp add: chop128.simps [of M])
    have r: "rest128 M = rest128 (drop 128 M)"
      using rest128_block [OF l, of "drop 128 M"] by simp
    from 1 [OF False] have ih1: "drop 128 M = concat (chop128 (drop 128 M)) @ rest128 (drop 128 M)"
      and ih2: "\<forall>b\<in>set (chop128 (drop 128 M)). length b = 128" by simp_all
    have "concat (chop128 M) @ rest128 M = take 128 M @ drop 128 M"
      unfolding c r using ih1 by simp
    with ih2 l show ?thesis by (simp add: c)
  qed
qed

lemma update_blocks_eq:
  "update_blocks small Hs data
     = (foldl (sha512_256_transform small) Hs (chop128 data), rest128 data)"
proof (induction small Hs data rule: update_blocks.induct)
  case (1 small Hs data)
  show ?case
  proof (cases "128 \<le> length data")
    case True
    then have l: "length (take 128 data) = 128" by simp
    have c: "chop128 data = take 128 data # chop128 (drop 128 data)"
      using True by (simp add: chop128.simps [of data])
    have r: "rest128 data = rest128 (drop 128 data)"
      using rest128_block [OF l, of "drop 128 data"] by simp
    show ?thesis
      using True 1
      by (simp add: update_blocks.simps [of _ _ data] SHA512_256_BLOCK_SIZE_def c r transform_take)
  next
    case False
    then show ?thesis
      by (simp add: update_blocks.simps [of _ _ data] SHA512_256_BLOCK_SIZE_def
            chop128_short rest128_short)
  qed
qed

lemma update_count_H [simp]: "H (update_count len ctx) = H ctx"
  by (simp add: update_count_def Let_def)

lemma update_count_buffer [simp]: "buffer (update_count len ctx) = buffer ctx"
  by (simp add: update_count_def Let_def)

lemma unat_mask61: "unat (x AND (0x1FFFFFFFFFFFFFFF :: u64)) = unat x mod 2 ^ 61"
proof -
  have "(0x1FFFFFFFFFFFFFFF :: u64) = mask 61" by (simp add: mask_eq_exp_minus_1)
  then have "x AND 0x1FFFFFFFFFFFFFFF = take_bit 61 x" by (simp add: take_bit_eq_mask)
  then show ?thesis by (simp add: take_bit_eq_mod unat_mod)
qed

lemma unat_drop61: "unat (drop_bit 61 (x :: u64)) = unat x div 2 ^ 61"
  by (simp add: drop_bit_eq_div unat_div)

lemma unat_add_len: "unat ((c :: u64) + of_nat len) = (unat c + len) mod 2 ^ 64"
  by (simp add: unat_word_ariths unat_of_nat mod_simps)

lemma update_count_mod128:
  "unat (count (update_count len ctx)) mod 128 = (unat (count ctx) + len) mod 128"
proof -
  have a: "(unat (count ctx) + len) mod 2 ^ 64 mod 128 = (unat (count ctx) + len) mod 128"
    by (rule mod_mod_cancel) simp
  have b: "x mod 2 ^ 61 mod 128 = x mod 128" for x :: nat
    by (rule mod_mod_cancel) simp
  show ?thesis
    using a b [of "(unat (count ctx) + len) mod 2 ^ 64"]
    by (simp add: update_count_def Let_def unat_mask61 unat_add_len)
qed

lemma update_skip: "\<not> small \<Longrightarrow> MHD_SHA512_256_update small ctx [] = ctx"
  by (simp add: MHD_SHA512_256_update_def)

lemma update_fill_H:
  assumes "small \<or> data \<noteq> []" and "upd_case_fill ctx data"
  shows "H (MHD_SHA512_256_update small ctx data) =
     (let n = unat (count ctx AND 127);
          blk = memcpy_at (buffer ctx) n data (128 - n)
      in foldl (sha512_256_transform small) (sha512_256_transform small (H ctx) blk)
           (chop128 (drop (128 - n) data)))"
  using assms
  by (auto simp add: MHD_SHA512_256_update_def update_fill_def Let_def update_blocks_eq
        upd_case_fill_def SHA512_256_BLOCK_SIZE_def split: prod.split)

lemma update_fill_buffer:
  assumes "small \<or> data \<noteq> []" and "upd_case_fill ctx data"
  shows "buffer (MHD_SHA512_256_update small ctx data) =
     (let n = unat (count ctx AND 127);
          blk = memcpy_at (buffer ctx) n data (128 - n);
          r = rest128 (drop (128 - n) data)
      in if r \<noteq> [] then memcpy_at blk 0 r (length r) else blk)"
  using assms
  by (auto simp add: MHD_SHA512_256_update_def update_fill_def Let_def update_blocks_eq
        upd_case_fill_def SHA512_256_BLOCK_SIZE_def split: prod.split)

lemma update_nofill_H:
  assumes "small \<or> data \<noteq> []" and "\<not> upd_case_fill ctx data"
  shows "H (MHD_SHA512_256_update small ctx data) =
     foldl (sha512_256_transform small) (H ctx) (chop128 data)"
  using assms
  by (auto simp add: MHD_SHA512_256_update_def update_fill_def Let_def update_blocks_eq
        upd_case_fill_def SHA512_256_BLOCK_SIZE_def split: prod.split)

lemma update_nofill_buffer:
  assumes "small \<or> data \<noteq> []" and "\<not> upd_case_fill ctx data"
  shows "buffer (MHD_SHA512_256_update small ctx data) =
     (let n = unat (count ctx AND 127); r = rest128 data
      in if r \<noteq> [] then memcpy_at (buffer ctx) n r (length r) else buffer ctx)"
  using assms
  by (auto simp add: MHD_SHA512_256_update_def update_fill_def Let_def update_blocks_eq
        upd_case_fill_def SHA512_256_BLOCK_SIZE_def split: prod.split)

lemma update_counters:
  assumes "small \<or> data \<noteq> []"
  shows "count (MHD_SHA512_256_update small ctx data) = count (update_count (length data) ctx)"
    and "count_bits_hi (MHD_SHA512_256_update small ctx data)
           = count_bits_hi (update_count (length data) ctx)"
  using assms
  by (auto simp add: MHD_SHA512_256_update_def update_fill_def Let_def update_blocks_eq
        SHA512_256_BLOCK_SIZE_def split: prod.split)

lemma length_concat_blocks:
  "\<forall>b\<in>set bs. length b = 128 \<Longrightarrow> length (concat bs) = 128 * length bs"
  by (induction bs) simp_all

lemma chop128_concat: "concat (chop128 M) @ rest128 M = M"
proof -
  from chop128_decomp [of M] have "M = concat (chop128 M) @ rest128 M"
    by (rule conjunct1)
  then show ?thesis by (rule sym)
qed

lemma chop128_lengths: "b \<in> set (chop128 M) \<Longrightarrow> length b = 128"
  using chop128_decomp [of M] by blast

lemma buffered_intro:
  assumes "length (buffer c) = 128"
    and "\<forall>b\<in>set bs. length b = 128"
    and "length r < 128"
    and "H c = foldl (sha512_256_transform small) H0 bs"
    and "take (length r) (buffer c) = r"
    and "unat (count c) mod 128 = length (concat bs @ r) mod 128"
  shows "buffered small H0 c (concat bs @ r)"
proof -
  have "length (concat bs @ r) mod 128 = length r"
    using assms(2,3) by (simp add: length_concat_blocks)
  with assms chop128_unique [OF assms(2,3)] show ?thesis
    by (simp add: buffered_def)
qed

lemma update_buffered:
  assumes inv: "buffered small H0 ctx M"
  shows "buffered small H0 (MHD_SHA512_256_update small ctx data) (M @ data)"
proof (cases "small \<or> data \<noteq> []")
  case False
  with inv show ?thesis by (simp add: update_skip)
next
  case run: True
  define n where "n = unat (count ctx AND 127)"
  define bs where "bs = chop128 M"
  define r where "r = rest128 M"
  define c' where "c' = MHD_SHA512_256_update small ctx data"
  have len: "length (buffer ctx) = 128"
    and Hc: "H ctx = foldl (sha512_256_transform small) H0 bs"
    and tk: "take (length M mod 128) (buffer ctx) = r"
    and cnt: "unat (count ctx) mod 128 = length M mod 128"
    using inv by (simp_all add: buffered_def bs_def r_def)
  have n: "n = length M mod 128" by (simp add: n_def and_127 cnt)
  have lr: "length r = n" by (simp add: r_def length_rest128 n)
  have tk': "take n (buffer ctx) = r" using tk n by simp
  have M: "concat bs @ r = M"
    by (simp add: bs_def r_def chop128_concat)
  have blocks: "\<forall>b\<in>set bs. length b = 128"
    by (simp add: bs_def chop128_lengths)
  have n128: "n < 128" by (simp add: n)
  have "unat (count c') mod 128 = (unat (count ctx) + length data) mod 128"
    using run by (simp add: c'_def update_counters update_count_mod128)
  also have "\<dots> = (unat (count ctx) mod 128 + length data) mod 128"
    by (simp add: mod_add_left_eq)
  also have "\<dots> = (length M mod 128 + length data) mod 128"
    by (simp only: cnt)
  also have "\<dots> = (length M + length data) mod 128"
    by (simp add: mod_add_left_eq)
  finally have cnt': "unat (count c') mod 128 = (length M + length data) mod 128" .
  show ?thesis
  proof (cases "upd_case_fill ctx data")
    case fill: True
    then have n0: "n \<noteq> 0" and ge: "128 - n \<le> length data"
      by (simp_all add: upd_case_fill_def n_def)
    define blk where "blk = r @ take (128 - n) data"
    define d where "d = drop (128 - n) data"
    have blk: "memcpy_at (buffer ctx) n data (128 - n) = blk"
      using len n128 tk' by (simp add: memcpy_at_def blk_def)
    have lblk: "length blk = 128" using lr ge n128 by (simp add: blk_def)
    have lrd: "length (rest128 d) < 128" by (simp add: length_rest128)
    have Hc': "H c' = foldl (sha512_256_transform small) H0 (bs @ blk # chop128 d)"
      using update_fill_H [OF run fill]
      by (simp add: c'_def Let_def n_def [symmetric] blk d_def [symmetric] Hc)
    have bc': "buffer c' = (if rest128 d \<noteq> [] then memcpy_at blk 0 (rest128 d) (length (rest128 d))
                 else blk)"
      using update_fill_buffer [OF run fill]
      by (simp add: c'_def Let_def n_def [symmetric] blk d_def [symmetric])
    have lb: "length (buffer c') = 128"
      using lblk lrd by (simp add: bc' memcpy_at_def)
    have tb: "take (length (rest128 d)) (buffer c') = rest128 d"
      using lblk lrd by (simp add: bc' memcpy_at_def)
    have dec: "M @ data = concat (bs @ blk # chop128 d) @ rest128 d"
    proof -
      have d1: "take (128 - n) data @ d = data" by (simp add: d_def)
      have "concat (bs @ blk # chop128 d) @ rest128 d
          = (concat bs @ r) @ take (128 - n) data @ (concat (chop128 d) @ rest128 d)"
        by (simp add: blk_def)
      also have "\<dots> = (concat bs @ r) @ (take (128 - n) data @ d)"
        by (simp only: chop128_concat)
      also have "\<dots> = M @ data"
        by (simp only: d1 M)
      finally show ?thesis by (rule sym)
    qed
    have bl: "\<forall>b\<in>set (bs @ blk # chop128 d). length b = 128"
      using blocks lblk by (auto simp add: chop128_lengths)
    have "buffered small H0 c' (concat (bs @ blk # chop128 d) @ rest128 d)"
      using lb bl lrd Hc' tb cnt' [unfolded length_append [symmetric] dec]
      by (rule buffered_intro)
    then show ?thesis by (simp only: dec c'_def)
  next
    case nofill: False
    then have small_data: "n = 0 \<or> length data < 128 - n"
      by (auto simp add: upd_case_fill_def n_def)
    define rd where "rd = rest128 data"
    have lrd: "length rd = length data mod 128" by (simp add: rd_def length_rest128)
    have Hc': "H c' = foldl (sha512_256_transform small) H0 (bs @ chop128 data)"
      using update_nofill_H [OF run nofill] by (simp add: c'_def Hc)
    have bc': "buffer c' = (if rd \<noteq> [] then memcpy_at (buffer ctx) n rd (length rd)
                 else buffer ctx)"
      using update_nofill_buffer [OF run nofill]
      by (simp add: c'_def Let_def n_def [symmetric] rd_def)
    have nrd: "n + length rd < 128"
      using small_data n128 lrd by auto
    have lb: "length (buffer c') = 128"
      using len nrd by (simp add: bc' memcpy_at_def)
    have tb: "take (length (r @ rd)) (buffer c') = r @ rd"
      using len nrd tk' lr by (simp add: bc' memcpy_at_def)
    have cr: "chop128 data = [] \<or> r = []"
    proof (cases "n = 0")
      case True
      with lr show ?thesis by simp
    next
      case False
      with small_data have "length data < 128" by simp
      then show ?thesis by (simp add: chop128_short)
    qed
    have dec: "M @ data = concat (bs @ chop128 data) @ (r @ rd)"
    proof -
      have "concat (bs @ chop128 data) @ (r @ rd)
          = (concat bs @ r) @ (concat (chop128 data) @ rd)"
        using cr by auto
      also have "\<dots> = M @ data"
        by (simp only: M rd_def chop128_concat)
      finally show ?thesis by (rule sym)
    qed
    have bl: "\<forall>b\<in>set (bs @ chop128 data). length b = 128"
      using blocks by (auto simp add: chop128_lengths)
    have lrr: "length (r @ rd) < 128" using nrd lr by simp
    have "buffered small H0 c' (concat (bs @ chop128 data) @ (r @ rd))"
      using lb bl lrr Hc' tb cnt' [unfolded length_append [symmetric] dec]
      by (rule buffered_intro)
    then show ?thesis by (simp only: dec c'_def)
  qed
qed

section \<open>Reachable contexts and the empty update\<close>

lemma H_init: "H (MHD_SHA512_256_init ctx) = SHA512_256_IV"
  by (simp add: SHA512_256_IV_def MHD_SHA512_256_init_def)

lemma init_buffered:
  "length (buffer ctx) = 128 \<Longrightarrow> buffered small SHA512_256_IV (MHD_SHA512_256_init ctx) []"
  by (simp add: buffered_def H_init chop128_short rest128_short)
     (simp add: MHD_SHA512_256_init_def)

lemma absorb_snoc:
  "absorb small ctx (chunks @ [d]) = MHD_SHA512_256_update small (absorb small ctx chunks) d"
  by (simp add: absorb_def)

lemma absorb_buffered:
  assumes "length (buffer ctx) = 128"
  shows "buffered small SHA512_256_IV (absorb small ctx chunks) (concat chunks)"
proof (induction chunks rule: rev_induct)
  case Nil
  show ?case using assms by (simp add: absorb_def init_buffered)
next
  case (snoc d chunks)
  then show ?case
    using update_buffered [of small SHA512_256_IV "absorb small ctx chunks" "concat chunks" d]
    by (simp add: absorb_snoc)
qed

lemma reachable_absorb: "reachable small c \<Longrightarrow>
  \<exists>ctx chunks. length (buffer ctx) = 128 \<and> c = absorb small ctx chunks"
proof (induction rule: reachable.induct)
  case (reach_init ctx)
  then have "length (buffer ctx) = 128 \<and> MHD_SHA512_256_init ctx = absorb small ctx []"
    by (simp add: absorb_def SHA512_256_BLOCK_SIZE_def)
  then show ?case by blast
next
  case (reach_update c data)
  then obtain ctx chunks where "length (buffer ctx) = 128" and "c = absorb small ctx chunks"
    by blast
  then have "length (buffer ctx) = 128
      \<and> MHD_SHA512_256_update small c data = absorb small ctx (chunks @ [data])"
    by (simp add: absorb_snoc)
  then show ?case by blast
qed

lemma reachable_buffer: "reachable small c \<Longrightarrow> length (buffer c) = 128"
  using reachable_absorb [of small c] absorb_buffered by (auto simp add: buffered_def)

lemma update_count_small: "unat (count (update_count len ctx)) < 2 ^ 61"
proof (cases "drop_bit 61 (count ctx + of_nat len) = 0")
  case True
  then have "unat (count ctx + of_nat len) div 2 ^ 61 = 0"
    using unat_drop61 [of "count ctx + of_nat len"] by simp
  then have "unat (count ctx + of_nat len) < 2 ^ 61"
    by (simp add: div_eq_0_iff)
  with True show ?thesis by (simp add: update_count_def Let_def)
next
  case False
  then show ?thesis by (simp add: update_count_def Let_def unat_mask61)
qed

lemma reachable_count: "reachable small c \<Longrightarrow> unat (count c) < 2 ^ 61"
proof (induction rule: reachable.induct)
  case (reach_init ctx)
  show ?case by (simp add: MHD_SHA512_256_init_def)
next
  case (reach_update c data)
  show ?case
  proof (cases "small \<or> data \<noteq> []")
    case True
    then show ?thesis
      using update_count_small [of "length data" c] by (simp add: update_counters)
  next
    case False
    with reach_update show ?thesis by (simp add: update_skip)
  qed
qed

lemma update_count_0:
  assumes "unat (count ctx) < 2 ^ 61"
  shows "update_count 0 ctx = ctx"
proof -
  have "unat (drop_bit 61 (count ctx)) = 0"
    using assms by (simp add: unat_drop61)
  then have "drop_bit 61 (count ctx) = 0"
    by (simp add: unat_eq_0)
  then show ?thesis by (simp add: update_count_def Let_def)
qed

lemma update_empty:
  assumes "unat (count ctx) < 2 ^ 61"
  shows "MHD_SHA512_256_update small ctx [] = ctx"
proof -
  have "\<not> 128 \<le> unat (count ctx AND 127)"
    using bytes_have_less [of "count ctx"] by simp
  with assms show ?thesis
    by (simp add: MHD_SHA512_256_update_def update_count_0 update_fill_def Let_def
          update_blocks_eq chop128_short rest128_short SHA512_256_BLOCK_SIZE_def)
qed

section \<open>Initialisation and finalisation\<close>

lemma length_finish_pad:
  assumes "length (buffer ctx) = 128"
  shows "length (buffer (finish_pad small ctx)) = 128"
  using assms bytes_have_less [of "count ctx"]
  by (simp add: finish_pad_eq Let_def)

lemma drop_length_append: "length xs = k \<Longrightarrow> drop k (xs @ ys) = ys"
  by simp

lemma reach_example: "reachable small (example_ctx small)"
  unfolding example_ctx_def
  by (intro reach_update reach_init)
     (simp_all add: zero_ctx_def SHA512_256_BLOCK_SIZE_def SIZE_MAX_def)

text \<open>
  Claim C8. \<^verbatim>\<open>MHD_SHA512_256_init\<close> stores the eight initial words of SHA-512/256, each
  of them different from the word of plain SHA-512 at the same place, and sets both counters
  to zero, so that no byte counts as buffered; it does not touch the buffer. It is a total
  function of the context alone: it reads no input and has no failing result.
\<close>

theorem init_sets_state:
  "(let c = MHD_SHA512_256_init ctx in
      H c = (0x22312194FC2BF72C, 0x9F555FA3C84C64C2, 0x2393B86B6F53B151, 0x963877195940EABD,
             0x96283EE2A88EFFE3, 0xBE5E1E2553863992, 0x2B0199FC2C85B8AA, 0x0EB72DDC81C52CA2)
      \<and> list_all2 (\<lambda>a b. a \<noteq> b) (hash_words (H c)) fips_sha512_H0
      \<and> count c = 0 \<and> count_bits_hi c = 0
      \<and> unat (count c AND 127) = 0
      \<and> buffer c = buffer ctx)"
  by (simp add: MHD_SHA512_256_init_def hash_words_def fips_sha512_H0_def)

text \<open>
  Claim C9. For every reachable context, the context that \<^verbatim>\<open>MHD_SHA512_256_finish\<close>
  leaves behind is zero everywhere: the eight state words, the 128 bytes of the buffer and
  both counters.
\<close>

theorem finish_erases_context:
  assumes "reachable small ctx"
  shows "snd (MHD_SHA512_256_finish small ctx)
           = \<lparr>H = (0, 0, 0, 0, 0, 0, 0, 0), buffer = replicate 128 0,
               count = 0, count_bits_hi = 0\<rparr>"
proof -
  have "length (buffer (finish_transform small ctx)) = 128"
    using length_finish_pad [OF reachable_buffer [OF assms]]
    by (simp add: finish_transform_def Let_def)
  then show ?thesis
    by (simp add: MHD_SHA512_256_finish_def Let_def memset_ctx_0_def memset_at_def
          SHA512_256_BLOCK_SIZE_def)
qed

theorem finish_erases_context_witness:
  "reachable True (example_ctx True)
   \<and> snd (MHD_SHA512_256_finish True (example_ctx True))
       = \<lparr>H = (0, 0, 0, 0, 0, 0, 0, 0), buffer = replicate 128 0,
           count = 0, count_bits_hi = 0\<rparr>"
  using reach_example [of True] finish_erases_context [OF reach_example [of True]]
  by (rule conjI)

text \<open>
  Claim C10. An update of length zero leaves every reachable context as it is, with or
  without buffered bytes, in the default build (the shortcut) and in the small-code build
  (where the whole function body runs).
\<close>

theorem update_zero_length_identity:
  assumes "reachable small ctx"
  shows "MHD_SHA512_256_update small ctx [] = ctx"
  using assms by (intro update_empty reachable_count)

theorem update_zero_length_identity_witness:
  "reachable True (example_ctx True)
   \<and> MHD_SHA512_256_update True (example_ctx True) [] = example_ctx True"
  using reach_example [of True] update_zero_length_identity [OF reach_example [of True]]
  by (rule conjI)

text \<open>
  Claim C4. The digest stored by \<^verbatim>\<open>MHD_SHA512_256_finish\<close> is 32 bytes long: the
  big-endian encodings of the first four words of the state after the last transform, in
  order. The other four words do not enter it.
\<close>

theorem digest_is_first_four_words:
  "(case H (finish_transform small ctx) of (H0, H1, H2, H3, H4, H5, H6, H7) \<Rightarrow>
      let digest = fst (MHD_SHA512_256_finish small ctx) in
        digest = PUT_64BIT_BE H0 @ PUT_64BIT_BE H1 @ PUT_64BIT_BE H2 @ PUT_64BIT_BE H3
        \<and> length digest = 32
        \<and> be_nat (take 8 digest) = unat H0
        \<and> be_nat (take 8 (drop 8 digest)) = unat H1
        \<and> be_nat (take 8 (drop 16 digest)) = unat H2
        \<and> be_nat (take 8 (drop 24 digest)) = unat H3)"
proof -
  obtain H0 H1 H2 H3 H4 H5 H6 H7
    where Hs: "H (finish_transform small ctx) = (H0, H1, H2, H3, H4, H5, H6, H7)"
    by (rule hash_exhaust)
  show ?thesis
    by (simp add: Hs MHD_SHA512_256_finish_def Let_def be_nat_PUT_64BIT_BE)
qed

text \<open>
  Claim C3. For every reachable context with \<open>n\<close> buffered bytes, the finish stores
  \<open>0x80\<close> right after them. If fewer than 16 bytes are left in the block after that, it
  fills the block with zeros, transforms it and goes on with a block of zeros; otherwise it
  transforms nothing at this point. In both cases the final block is zero up to its last 16
  bytes, which hold the overflow counter and the low-order counter shifted left by 3 as one
  big-endian number of 128 bits, and the final block is transformed once.
\<close>

theorem finish_padding:
  assumes "reachable small ctx"
  shows "(let n = unat (count ctx AND 127);
              hi = PUT_64BIT_BE (count_bits_hi ctx);
              lo = PUT_64BIT_BE (push_bit 3 (count ctx));
              p = finish_pad small ctx
          in n < 128
             \<and> (if 128 - (n + 1) < 16
                 then H p = sha512_256_transform small (H ctx)
                              (take n (buffer ctx) @ 0x80 # replicate (127 - n) 0)
                      \<and> buffer p = replicate 112 0 @ hi @ lo
                 else H p = H ctx
                      \<and> buffer p = take n (buffer ctx) @ 0x80 # replicate (111 - n) 0 @ hi @ lo)
             \<and> length (buffer p) = 128
             \<and> be_nat (drop 112 (buffer p))
                 = 2 ^ 64 * unat (count_bits_hi ctx) + unat (push_bit 3 (count ctx))
             \<and> H (finish_transform small ctx) = sha512_256_transform small (H p) (buffer p)
             \<and> buffer (finish_transform small ctx) = buffer p)"
proof -
  define n where "n = unat (count ctx AND 127)"
  have len: "length (buffer ctx) = 128" using assms by (rule reachable_buffer)
  have n: "n < 128" by (simp add: n_def bytes_have_less)
  have be: "be_nat (PUT_64BIT_BE (count_bits_hi ctx) @ PUT_64BIT_BE (push_bit 3 (count ctx)))
      = 2 ^ 64 * unat (count_bits_hi ctx) + unat (push_bit 3 (count ctx))"
    by (simp add: be_nat_append be_nat_PUT_64BIT_BE)
  show ?thesis
  proof (cases "n < 112")
    case True
    then have c: "\<not> 127 - n < 16" by arith
    have "length (take n (buffer ctx) @ 0x80 # replicate (111 - n) 0) = 112"
      using True len by simp
    then have "drop 112 ((take n (buffer ctx) @ 0x80 # replicate (111 - n) 0) @ X) = X" for X
      by (rule drop_length_append)
    then have d: "drop 112 (take n (buffer ctx) @ 0x80 # replicate (111 - n) 0 @ X) = X" for X
      by simp
    from True n len be c show ?thesis
      by (simp add: finish_pad_eq finish_transform_def Let_def n_def [symmetric] d
            del: drop_append)
  next
    case False
    with n len be show ?thesis
      by (simp add: finish_pad_eq finish_transform_def Let_def n_def [symmetric])
  qed
qed

theorem finish_padding_witness:
  "reachable True (example_ctx True)
   \<and> (let n = unat (count (example_ctx True) AND 127);
           hi = PUT_64BIT_BE (count_bits_hi (example_ctx True));
           lo = PUT_64BIT_BE (push_bit 3 (count (example_ctx True)));
           p = finish_pad True (example_ctx True)
       in n < 128
          \<and> (if 128 - (n + 1) < 16
              then H p = sha512_256_transform True (H (example_ctx True))
                           (take n (buffer (example_ctx True)) @ 0x80 # replicate (127 - n) 0)
                   \<and> buffer p = replicate 112 0 @ hi @ lo
              else H p = H (example_ctx True)
                   \<and> buffer p = take n (buffer (example_ctx True)) @ 0x80
                                  # replicate (111 - n) 0 @ hi @ lo)
          \<and> length (buffer p) = 128
          \<and> be_nat (drop 112 (buffer p))
              = 2 ^ 64 * unat (count_bits_hi (example_ctx True))
                + unat (push_bit 3 (count (example_ctx True)))
          \<and> H (finish_transform True (example_ctx True))
              = sha512_256_transform True (H p) (buffer p)
          \<and> buffer (finish_transform True (example_ctx True)) = buffer p)"
  using reach_example [of True] finish_padding [OF reach_example [of True]]
  by (rule conjI)

section \<open>The byte counters\<close>

lemma update_count_counted:
  assumes c: "counted ctx T"
    and nowrap: "unat (count ctx) + len < 2 ^ 64"
    and total: "T + len < 2 ^ 125"
  shows "counted (update_count len ctx) (T + len)"
proof -
  define s where "s = unat (count ctx) + len"
  define q where "q = s div 2 ^ 61"
  have T: "2 ^ 61 * unat (count_bits_hi ctx) + unat (count ctx) = T"
    using c by (simp add: counted_def)
  have us: "unat (count ctx + of_nat len) = s"
    using nowrap by (simp add: unat_add_len s_def)
  have uq: "unat (drop_bit 61 (count ctx + of_nat len)) = q"
    by (simp add: unat_drop61 us q_def)
  have split: "2 ^ 61 * q + s mod 2 ^ 61 = s"
    by (simp add: q_def)
  have "2 ^ 61 * (unat (count_bits_hi ctx) + q) \<le> T + len"
    using T split by (simp add: s_def algebra_simps)
  with total have "2 ^ 61 * (unat (count_bits_hi ctx) + q) < (2 :: nat) ^ 61 * 2 ^ 64"
    by simp
  then have hq: "unat (count_bits_hi ctx) + q < 2 ^ 64"
    by (simp only: mult_less_cancel1)
  show ?thesis
  proof (cases "drop_bit 61 (count ctx + of_nat len) = 0")
    case True
    then have "q = 0" using uq by simp
    then have "s < 2 ^ 61" by (simp add: q_def div_eq_0_iff)
    with True T us show ?thesis
      by (simp add: counted_def update_count_def Let_def s_def)
  next
    case False
    have "unat (count_bits_hi ctx + drop_bit 61 (count ctx + of_nat len))
        = unat (count_bits_hi ctx) + q"
      using hq by (simp add: unat_word_ariths uq)
    with False T us split show ?thesis
      by (simp add: counted_def update_count_def Let_def unat_mask61 s_def algebra_simps)
  qed
qed

lemma fits_butlast: "fits (chunks @ [d]) \<Longrightarrow> fits chunks"
  by (auto simp add: fits_def)

lemma absorb_counted:
  assumes "fits chunks"
  shows "counted (absorb small ctx chunks) (length (concat chunks))"
  using assms
proof (induction chunks rule: rev_induct)
  case Nil
  show ?case by (simp add: absorb_def counted_def MHD_SHA512_256_init_def)
next
  case (snoc d chunks)
  define c where "c = absorb small ctx chunks"
  define T where "T = length (concat chunks)"
  have ih: "counted c T"
    using snoc fits_butlast [of chunks d] by (simp add: c_def T_def)
  have total: "T + length d < 2 ^ 125"
    using snoc.prems by (simp add: fits_def T_def)
  have "length d \<le> 2 ^ 64 - 2 ^ 61 \<or> T + length d < 2 ^ 64"
    using snoc.prems by (auto simp add: fits_def T_def)
  moreover have "unat (count c) < 2 ^ 61" and "unat (count c) \<le> T"
    using ih by (auto simp add: counted_def)
  ultimately have nowrap: "unat (count c) + length d < 2 ^ 64"
    by auto
  show ?case
  proof (cases "small \<or> d \<noteq> []")
    case True
    have "counted (update_count (length d) c) (T + length d)"
      using ih nowrap total by (rule update_count_counted)
    then have "counted (MHD_SHA512_256_update small c d) (T + length d)"
      using True by (simp add: counted_def update_counters)
    then show ?thesis
      by (simp add: absorb_snoc c_def T_def)
  next
    case False
    with ih show ?thesis
      by (simp add: absorb_snoc update_skip c_def T_def)
  qed
qed

lemma finish_pad_tail:
  assumes len: "length (buffer ctx) = 128"
  shows "drop 112 (buffer (finish_pad small ctx))
     = PUT_64BIT_BE (count_bits_hi ctx) @ PUT_64BIT_BE (push_bit 3 (count ctx))"
proof -
  define n where "n = unat (count ctx AND 127)"
  show ?thesis
  proof (cases "n < 112")
    case True
    have "length (take n (buffer ctx) @ 0x80 # replicate (111 - n) 0) = 112"
      using True len by simp
    then have "drop 112 ((take n (buffer ctx) @ 0x80 # replicate (111 - n) 0) @ X) = X" for X
      by (rule drop_length_append)
    then have d: "drop 112 (take n (buffer ctx) @ 0x80 # replicate (111 - n) 0 @ X) = X" for X
      by simp
    from True len show ?thesis
      by (simp add: finish_pad_eq Let_def n_def [symmetric] d del: drop_append)
  next
    case False
    with len show ?thesis
      by (simp add: finish_pad_eq Let_def n_def [symmetric])
  qed
qed

lemma unat_shift3:
  assumes "unat (c :: u64) < 2 ^ 61"
  shows "unat (push_bit 3 c) = 8 * unat c"
proof -
  have "unat (push_bit 3 c) = (8 * unat c) mod 2 ^ 64"
    by (simp add: push_bit_eq_mult unat_word_ariths mult.commute)
  with assms show ?thesis by simp
qed

lemma counted_unique:
  assumes "counted a T" and "counted b T"
  shows "count a = count b" and "count_bits_hi a = count_bits_hi b"
proof -
  have a: "unat (count a) < 2 ^ 61" "2 ^ 61 * unat (count_bits_hi a) + unat (count a) = T"
    and b: "unat (count b) < 2 ^ 61" "2 ^ 61 * unat (count_bits_hi b) + unat (count b) = T"
    using assms by (simp_all add: counted_def)
  have "unat (count a) = T mod 2 ^ 61"
    using a by (metis mod_mult_self4 mod_less)
  moreover have "unat (count b) = T mod 2 ^ 61"
    using b by (metis mod_mult_self4 mod_less)
  ultimately have c: "unat (count a) = unat (count b)" by simp
  then show "count a = count b" by (simp add: word_unat_eq_iff)
  from a(2) b(2) c have "(2 :: nat) ^ 61 * unat (count_bits_hi a) = 2 ^ 61 * unat (count_bits_hi b)"
    by simp
  then have "unat (count_bits_hi a) = unat (count_bits_hi b)" by simp
  then show "count_bits_hi a = count_bits_hi b" by (simp add: word_unat_eq_iff)
qed

lemma finish_digest_cong:
  assumes "length (buffer a) = 128" and "length (buffer b) = 128"
    and "H a = H b" and "count a = count b" and "count_bits_hi a = count_bits_hi b"
    and "take (unat (count a AND 127)) (buffer a) = take (unat (count a AND 127)) (buffer b)"
  shows "fst (MHD_SHA512_256_finish small a) = fst (MHD_SHA512_256_finish small b)"
  using assms
  by (simp add: MHD_SHA512_256_finish_def finish_transform_def finish_pad_eq Let_def)

section \<open>Properties of absorbing a message in chunks\<close>

text \<open>
  Claim C6. After init and any number of updates, with \<open>M\<close> the bytes absorbed so far:
  the state words are the initial words folded over the full 128-byte blocks of \<open>M\<close>, and
  the input bytes not yet transformed are the rest of \<open>M\<close>, which lies at the start of the
  buffer. Their number is the low-order counter modulo 128 and is less than 128, so the
  buffer never holds a full block when update returns.
\<close>

theorem buffer_holds_partial_block:
  assumes "length (buffer ctx0) = SHA512_256_BLOCK_SIZE"
  shows "(let ctx = absorb small ctx0 chunks;
              M = concat chunks;
              n = unat (count ctx AND 127)
          in n = unat (count ctx) mod 128
             \<and> n < 128
             \<and> n = length M mod 128
             \<and> length (buffer ctx) = 128
             \<and> M = concat (chop128 M) @ take n (buffer ctx)
             \<and> list_all (\<lambda>b. length b = 128) (chop128 M)
             \<and> H ctx = foldl (sha512_256_transform small) (H (MHD_SHA512_256_init ctx0))
                         (chop128 M))"
proof -
  define ctx where "ctx = absorb small ctx0 chunks"
  define M where "M = concat chunks"
  have "buffered small SHA512_256_IV ctx M"
    using assms unfolding ctx_def M_def
    by (intro absorb_buffered) (simp add: SHA512_256_BLOCK_SIZE_def)
  then have len: "length (buffer ctx) = 128"
    and Hc: "H ctx = foldl (sha512_256_transform small) SHA512_256_IV (chop128 M)"
    and tk: "take (length M mod 128) (buffer ctx) = rest128 M"
    and cnt: "unat (count ctx) mod 128 = length M mod 128"
    by (simp_all add: buffered_def)
  have "list_all (\<lambda>b. length b = 128) (chop128 M)"
    by (simp add: list_all_iff chop128_lengths)
  moreover have "M = concat (chop128 M) @ take (length M mod 128) (buffer ctx)"
    by (simp add: tk chop128_concat)
  ultimately show ?thesis
    using len Hc cnt
    by (simp add: Let_def ctx_def [symmetric] M_def [symmetric] and_127 H_init)
qed

theorem buffer_holds_partial_block_witness:
  "length (buffer zero_ctx) = SHA512_256_BLOCK_SIZE
   \<and> (let ctx = absorb True zero_ctx [[0x61], [0x62, 0x63]];
           M = concat [[0x61], [0x62, 0x63]];
           n = unat (count ctx AND 127)
       in n = unat (count ctx) mod 128
          \<and> n < 128
          \<and> n = length M mod 128
          \<and> length (buffer ctx) = 128
          \<and> M = concat (chop128 M) @ take n (buffer ctx)
          \<and> list_all (\<lambda>b. length b = 128) (chop128 M)
          \<and> H ctx = foldl (sha512_256_transform True) (H (MHD_SHA512_256_init zero_ctx))
                      (chop128 M))"
proof -
  have h: "length (buffer zero_ctx) = SHA512_256_BLOCK_SIZE"
    by (simp add: zero_ctx_def SHA512_256_BLOCK_SIZE_def)
  show ?thesis
    using h buffer_holds_partial_block [OF h, where small = True
      and chunks = "[[0x61], [0x62, 0x63]]"]
    by (rule conjI)
qed

text \<open>
  Claim C7. An update reads all of \<^verbatim>\<open>data\<close>, an object in memory, so its length is
  far below \<open>2^64 - 2^61\<close> bytes (no object exceeds \<open>2^63 - 1\<close>), and a message
  whose bit length fits the 128-bit field has fewer than \<open>2^125\<close> bytes. On every such
  sequence of updates each update adds its length to the low-order counter and moves what
  exceeds 61 bits to the overflow counter: the low-order counter is below \<open>2^61\<close> and the
  pair stands for the exact number of bytes absorbed; the 16 bytes that the finish stores
  at the end of the final block are then the exact length of the message in bits as a
  big-endian number of 128 bits (the overflow counter as the high 64 bits, eight times the
  low-order counter as the low 64 bits).
\<close>

theorem counters_exact:
  assumes "length (buffer ctx0) = SHA512_256_BLOCK_SIZE"
    and "\<forall>d\<in>set chunks. length d \<le> 2 ^ 64 - 2 ^ 61"
    and "length (concat chunks) < 2 ^ 125"
  shows "(let ctx = absorb small ctx0 chunks;
              T = length (concat chunks);
              field = drop 112 (buffer (finish_pad small ctx))
          in unat (count ctx) < 2 ^ 61
             \<and> 2 ^ 61 * unat (count_bits_hi ctx) + unat (count ctx) = T
             \<and> field = PUT_64BIT_BE (count_bits_hi ctx) @ PUT_64BIT_BE (push_bit 3 (count ctx))
             \<and> unat (push_bit 3 (count ctx)) = 8 * unat (count ctx)
             \<and> length field = 16
             \<and> be_nat field = 8 * T)"
proof -
  define ctx where "ctx = absorb small ctx0 chunks"
  define T where "T = length (concat chunks)"
  have "fits chunks"
    using assms(2,3) by (simp add: fits_def)
  then have "counted ctx T"
    unfolding ctx_def T_def by (rule absorb_counted)
  then have c: "unat (count ctx) < 2 ^ 61"
    and t: "2 ^ 61 * unat (count_bits_hi ctx) + unat (count ctx) = T"
    by (simp_all add: counted_def)
  have "buffered small SHA512_256_IV ctx (concat chunks)"
    using assms(1) unfolding ctx_def
    by (intro absorb_buffered) (simp add: SHA512_256_BLOCK_SIZE_def)
  then have len: "length (buffer ctx) = 128"
    by (simp add: buffered_def)
  have s: "unat (push_bit 3 (count ctx)) = 8 * unat (count ctx)"
    using c by (rule unat_shift3)
  have "be_nat (PUT_64BIT_BE (count_bits_hi ctx) @ PUT_64BIT_BE (push_bit 3 (count ctx)))
      = 2 ^ 64 * unat (count_bits_hi ctx) + 8 * unat (count ctx)"
    by (simp add: be_nat_append be_nat_PUT_64BIT_BE s)
  also have "\<dots> = 8 * T"
    using t by simp
  finally show ?thesis
    using c t s length_finish_pad [OF len, of small]
    by (simp add: Let_def ctx_def [symmetric] T_def [symmetric] finish_pad_tail [OF len])
qed

theorem counters_exact_witness:
  "length (buffer zero_ctx) = SHA512_256_BLOCK_SIZE
   \<and> length (replicate (2 ^ 61) (0 :: u8)) \<le> 2 ^ 64 - 2 ^ 61
   \<and> length [0x61 :: u8] \<le> 2 ^ 64 - 2 ^ 61
   \<and> length (replicate (2 ^ 61 + 5) (0 :: u8)) \<le> 2 ^ 64 - 2 ^ 61
   \<and> length (concat [replicate (2 ^ 61) (0 :: u8), [0x61], replicate (2 ^ 61 + 5) 0]) < 2 ^ 125
   \<and> (let ctx = absorb False zero_ctx
                   [replicate (2 ^ 61) (0 :: u8), [0x61], replicate (2 ^ 61 + 5) 0];
           T = length (concat [replicate (2 ^ 61) (0 :: u8), [0x61], replicate (2 ^ 61 + 5) 0]);
           field = drop 112 (buffer (finish_pad False ctx))
       in unat (count ctx) < 2 ^ 61
          \<and> 2 ^ 61 * unat (count_bits_hi ctx) + unat (count ctx) = T
          \<and> field = PUT_64BIT_BE (count_bits_hi ctx) @ PUT_64BIT_BE (push_bit 3 (count ctx))
          \<and> unat (push_bit 3 (count ctx)) = 8 * unat (count ctx)
          \<and> length field = 16
          \<and> be_nat field = 8 * T)"
proof -
  have h1: "length (buffer zero_ctx) = SHA512_256_BLOCK_SIZE"
    by (simp add: zero_ctx_def SHA512_256_BLOCK_SIZE_def)
  have b1: "length (replicate (2 ^ 61) (0 :: u8)) \<le> 2 ^ 64 - 2 ^ 61"
    and b2: "length [0x61 :: u8] \<le> 2 ^ 64 - 2 ^ 61"
    and b3: "length (replicate (2 ^ 61 + 5) (0 :: u8)) \<le> 2 ^ 64 - 2 ^ 61"
    by simp_all
  have h2: "\<forall>d\<in>set [replicate (2 ^ 61) (0 :: u8), [0x61], replicate (2 ^ 61 + 5) 0].
              length d \<le> 2 ^ 64 - 2 ^ 61"
    using b1 b2 b3 by simp
  have h3: "length (concat [replicate (2 ^ 61) (0 :: u8), [0x61], replicate (2 ^ 61 + 5) 0])
              < 2 ^ 125"
    by simp
  show ?thesis
    using h1 b1 b2 b3 h3 counters_exact [OF h1 h2 h3, where small = False]
    by (intro conjI)
qed

text \<open>
  Claim C5. For every message \<open>M\<close> that one update can take (its length is a
  \<^verbatim>\<open>size_t\<close>) and every way of cutting it into consecutive chunks, init, one update per
  chunk and finish give the digest of init, one update with all of \<open>M\<close> and finish,
  whatever the two contexts held before init.
\<close>

theorem chunking_invariance:
  assumes "length (buffer ctx0) = SHA512_256_BLOCK_SIZE"
    and "length (buffer ctx1) = SHA512_256_BLOCK_SIZE"
    and "length (concat chunks) \<le> SIZE_MAX"
  shows "fst (MHD_SHA512_256_finish small (absorb small ctx0 chunks))
       = fst (MHD_SHA512_256_finish small (absorb small ctx1 [concat chunks]))"
proof -
  define M where "M = concat chunks"
  define a where "a = absorb small ctx0 chunks"
  define b where "b = absorb small ctx1 [M]"
  have lM: "length M < 2 ^ 64"
    using assms(3) by (simp add: M_def SIZE_MAX_def)
  have ba: "buffered small SHA512_256_IV a M"
    using assms(1) unfolding a_def M_def
    by (intro absorb_buffered) (simp add: SHA512_256_BLOCK_SIZE_def)
  have "buffered small SHA512_256_IV b (concat [M])"
    using assms(2) unfolding b_def
    by (intro absorb_buffered) (simp add: SHA512_256_BLOCK_SIZE_def)
  then have bb: "buffered small SHA512_256_IV b M" by simp
  have "fits chunks" using lM by (simp add: fits_def M_def)
  then have ca: "counted a M'" if "M' = length M" for M'
    unfolding a_def that M_def by (rule absorb_counted)
  have "fits [M]" using lM by (simp add: fits_def)
  then have "counted b (length (concat [M]))"
    unfolding b_def by (rule absorb_counted)
  then have cb: "counted b (length M)" by simp
  have cnt: "count a = count b" and hi: "count_bits_hi a = count_bits_hi b"
    using counted_unique [OF ca [OF refl] cb] by simp_all
  have n: "unat (count a AND 127) = length M mod 128"
    using ba by (simp add: and_127 buffered_def)
  have "fst (MHD_SHA512_256_finish small a) = fst (MHD_SHA512_256_finish small b)"
    using ba bb cnt hi n
    by (intro finish_digest_cong) (simp_all add: buffered_def)
  then show ?thesis
    by (simp add: a_def b_def M_def)
qed

theorem chunking_invariance_witness:
  "length (buffer zero_ctx) = SHA512_256_BLOCK_SIZE
   \<and> length (concat [[0x61 :: u8], [0x62], [0x63]]) \<le> SIZE_MAX
   \<and> fst (MHD_SHA512_256_finish True (absorb True zero_ctx [[0x61], [0x62], [0x63]]))
     = fst (MHD_SHA512_256_finish True
              (absorb True zero_ctx [concat [[0x61], [0x62], [0x63]]]))"
proof -
  have h1: "length (buffer zero_ctx) = SHA512_256_BLOCK_SIZE"
    by (simp add: zero_ctx_def SHA512_256_BLOCK_SIZE_def)
  have h2: "length (concat [[0x61 :: u8], [0x62], [0x63]]) \<le> SIZE_MAX"
    by (simp add: SIZE_MAX_def)
  show ?thesis
    using h1 h2 chunking_invariance [OF h1 h1 h2, where small = True]
    by (intro conjI)
qed

section \<open>The digest of the empty message\<close>

lemma IV_eq:
  "SHA512_256_IV = (0x22312194FC2BF72C, 0x9F555FA3C84C64C2, 0x2393B86B6F53B151,
     0x963877195940EABD, 0x96283EE2A88EFFE3, 0xBE5E1E2553863992, 0x2B0199FC2C85B8AA,
     0x0EB72DDC81C52CA2)"
  by (simp add: SHA512_256_IV_def MHD_SHA512_256_init_def)

lemma be_nat_zeros: "be_nat (replicate k 0) = 0"
  by (induction k) (simp_all add: be_nat_def)

lemma W_first:
  assumes "t < 16"
  shows "fips_W empty_block t = (if t = 0 then 0x8000000000000000 else 0)"
proof (cases "t = 0")
  case True
  have "be_nat ([0x80] @ replicate 7 0) = 128 * 256 ^ 7"
    by (simp only: be_nat_append be_nat_zeros) (simp add: be_nat_def)
  moreover have "take 8 empty_block = [0x80] @ replicate 7 0"
    by (simp add: empty_block_def)
  ultimately have "be_nat (take 8 (drop (8 * t) empty_block)) = 128 * 256 ^ 7"
    using True by (simp only: mult_0_right drop_0)
  with True show ?thesis
    by (simp add: fips_W.simps [of _ 0] fips_be64_def)
next
  case False
  with assms have "take 8 (drop (8 * t) empty_block) = replicate 8 0"
    by (simp add: empty_block_def drop_Cons' min_def)
  with False assms show ?thesis
    by (simp add: fips_W.simps [of _ t] fips_be64_def be_nat_zeros)
qed

lemma fips_rounds_Suc:
  "fips_rounds M (Suc n) v = fips_round (fips_rounds M n v) (K ! n) (fips_W M n)"
  by (simp add: fips_rounds_def)

lemmas sigma_eval = sig0_fips [symmetric] sig1_fips [symmetric] sig0_def sig1_def ROTR64_def

lemmas round_eval = SHA2STEP64RV_fips [symmetric] SHA2STEP64RV_def SHA2STEP64_def
  SIG0_def SIG1_def Ch_def Maj_def ROTR64_def Let_def K_def

text \<open>
  The schedule of the empty message's block, one word after the other, each from the four
  words it depends on.
\<close>

lemma W0: "fips_W empty_block 0 = 0x8000000000000000"
  by (simp add: W_first)

lemma W1: "fips_W empty_block (Suc 0) = 0x0000000000000000"
  by (simp add: W_first)

lemma W2: "fips_W empty_block 2 = 0x0000000000000000"
  by (simp add: W_first)

lemma W3: "fips_W empty_block 3 = 0x0000000000000000"
  by (simp add: W_first)

lemma W4: "fips_W empty_block 4 = 0x0000000000000000"
  by (simp add: W_first)

lemma W5: "fips_W empty_block 5 = 0x0000000000000000"
  by (simp add: W_first)

lemma W6: "fips_W empty_block 6 = 0x0000000000000000"
  by (simp add: W_first)

lemma W7: "fips_W empty_block 7 = 0x0000000000000000"
  by (simp add: W_first)

lemma W8: "fips_W empty_block 8 = 0x0000000000000000"
  by (simp add: W_first)

lemma W9: "fips_W empty_block 9 = 0x0000000000000000"
  by (simp add: W_first)

lemma W10: "fips_W empty_block 10 = 0x0000000000000000"
  by (simp add: W_first)

lemma W11: "fips_W empty_block 11 = 0x0000000000000000"
  by (simp add: W_first)

lemma W12: "fips_W empty_block 12 = 0x0000000000000000"
  by (simp add: W_first)

lemma W13: "fips_W empty_block 13 = 0x0000000000000000"
  by (simp add: W_first)

lemma W14: "fips_W empty_block 14 = 0x0000000000000000"
  by (simp add: W_first)

lemma W15: "fips_W empty_block 15 = 0x0000000000000000"
  by (simp add: W_first)

lemma W16: "fips_W empty_block 16 = 0x8000000000000000"
  by (simp add: fips_W.simps [of empty_block 16] W0 W14 W9 W1 sigma_eval)

lemma W17: "fips_W empty_block 17 = 0x0000000000000000"
  by (simp add: fips_W.simps [of empty_block 17] W1 W15 W10 W2 sigma_eval)

lemma W18: "fips_W empty_block 18 = 0x0200100000000004"
  by (simp add: fips_W.simps [of empty_block 18] W2 W16 W11 W3 sigma_eval)

lemma W19: "fips_W empty_block 19 = 0x0000000000000000"
  by (simp add: fips_W.simps [of empty_block 19] W3 W17 W12 W4 sigma_eval)

lemma W20: "fips_W empty_block 20 = 0x1008000002000020"
  by (simp add: fips_W.simps [of empty_block 20] W4 W18 W13 W5 sigma_eval)

lemma W21: "fips_W empty_block 21 = 0x0000000000000000"
  by (simp add: fips_W.simps [of empty_block 21] W5 W19 W14 W6 sigma_eval)

lemma W22: "fips_W empty_block 22 = 0x8004220110080140"
  by (simp add: fips_W.simps [of empty_block 22] W6 W20 W15 W7 sigma_eval)

lemma W23: "fips_W empty_block 23 = 0x8000000000000000"
  by (simp add: fips_W.simps [of empty_block 23] W7 W21 W16 W8 sigma_eval)

lemma W24: "fips_W empty_block 24 = 0x0209108000400800"
  by (simp add: fips_W.simps [of empty_block 24] W8 W22 W17 W9 sigma_eval)

lemma W25: "fips_W empty_block 25 = 0x0400200000000008"
  by (simp add: fips_W.simps [of empty_block 25] W9 W23 W18 W10 sigma_eval)

lemma W26: "fips_W empty_block 26 = 0x1140A00320114028"
  by (simp add: fips_W.simps [of empty_block 26] W10 W24 W19 W11 sigma_eval)

lemma W27: "fips_W empty_block 27 = 0x3018000006000060"
  by (simp add: fips_W.simps [of empty_block 27] W11 W25 W20 W12 sigma_eval)

lemma W28: "fips_W empty_block 28 = 0xA24500B1180A2042"
  by (simp add: fips_W.simps [of empty_block 28] W12 W26 W21 W13 sigma_eval)

lemma W29: "fips_W empty_block 29 = 0x0010880440200500"
  by (simp add: fips_W.simps [of empty_block 29] W13 W27 W22 W14 sigma_eval)

lemma W30: "fips_W empty_block 30 = 0xD4A945C2A4270995"
  by (simp add: fips_W.simps [of empty_block 30] W14 W28 W23 W15 sigma_eval)

lemma W31: "fips_W empty_block 31 = 0x43AD128001402810"
  by (simp add: fips_W.simps [of empty_block 31] W15 W29 W24 W16 sigma_eval)

lemma W32: "fips_W empty_block 32 = 0xCB2A519703108414"
  by (simp add: fips_W.simps [of empty_block 32] W16 W30 W25 W17 sigma_eval)

lemma W33: "fips_W empty_block 33 = 0x2FAAD072C8658034"
  by (simp add: fips_W.simps [of empty_block 33] W17 W31 W26 W18 sigma_eval)

lemma W34: "fips_W empty_block 34 = 0x7D14CC9B14BA8338"
  by (simp add: fips_W.simps [of empty_block 34] W18 W32 W27 W19 sigma_eval)

lemma W35: "fips_W empty_block 35 = 0x9867C5D3EB13EEFF"
  by (simp add: fips_W.simps [of empty_block 35] W19 W33 W28 W20 sigma_eval)

lemma W36: "fips_W empty_block 36 = 0xC94DC04C92359678"
  by (simp add: fips_W.simps [of empty_block 36] W20 W34 W29 W21 sigma_eval)

lemma W37: "fips_W empty_block 37 = 0x92ABA5AE1EE4675D"
  by (simp add: fips_W.simps [of empty_block 37] W21 W35 W30 W22 sigma_eval)

lemma W38: "fips_W empty_block 38 = 0x00B560CD2D362129"
  by (simp add: fips_W.simps [of empty_block 38] W22 W36 W31 W23 sigma_eval)

lemma W39: "fips_W empty_block 39 = 0x682916BBBF1EB0D9"
  by (simp add: fips_W.simps [of empty_block 39] W23 W37 W32 W24 sigma_eval)

lemma W40: "fips_W empty_block 40 = 0xFD4CE54FB9C1FCA2"
  by (simp add: fips_W.simps [of empty_block 40] W24 W38 W33 W25 sigma_eval)

lemma W41: "fips_W empty_block 41 = 0x389BBAFEDF01A2FF"
  by (simp add: fips_W.simps [of empty_block 41] W25 W39 W34 W26 sigma_eval)

lemma W42: "fips_W empty_block 42 = 0xF80AD4187A704534"
  by (simp add: fips_W.simps [of empty_block 42] W26 W40 W35 W27 sigma_eval)

lemma W43: "fips_W empty_block 43 = 0xFC8A6DB46B916FAB"
  by (simp add: fips_W.simps [of empty_block 43] W27 W41 W36 W28 sigma_eval)

lemma W44: "fips_W empty_block 44 = 0x0009308C4CA7D22B"
  by (simp add: fips_W.simps [of empty_block 44] W28 W42 W37 W29 sigma_eval)

lemma W45: "fips_W empty_block 45 = 0x49437D8543E9C98C"
  by (simp add: fips_W.simps [of empty_block 45] W29 W43 W38 W30 sigma_eval)

lemma W46: "fips_W empty_block 46 = 0x67F19B9756071662"
  by (simp add: fips_W.simps [of empty_block 46] W30 W44 W39 W31 sigma_eval)

lemma W47: "fips_W empty_block 47 = 0x23D1B6FD5980DB71"
  by (simp add: fips_W.simps [of empty_block 47] W31 W45 W40 W32 sigma_eval)

lemma W48: "fips_W empty_block 48 = 0x044AFA0AB38EDB37"
  by (simp add: fips_W.simps [of empty_block 48] W32 W46 W41 W33 sigma_eval)

lemma W49: "fips_W empty_block 49 = 0x332FD4EE79F5C755"
  by (simp add: fips_W.simps [of empty_block 49] W33 W47 W42 W34 sigma_eval)

lemma W50: "fips_W empty_block 50 = 0xA55AA02BEBFA6AD4"
  by (simp add: fips_W.simps [of empty_block 50] W34 W48 W43 W35 sigma_eval)

lemma W51: "fips_W empty_block 51 = 0xD7C6EB0C613C793A"
  by (simp add: fips_W.simps [of empty_block 51] W35 W49 W44 W36 sigma_eval)

lemma W52: "fips_W empty_block 52 = 0x0D8E6B8077EA417C"
  by (simp add: fips_W.simps [of empty_block 52] W36 W50 W45 W37 sigma_eval)

lemma W53: "fips_W empty_block 53 = 0xD647CA451BDE7CCB"
  by (simp add: fips_W.simps [of empty_block 53] W37 W51 W46 W38 sigma_eval)

lemma W54: "fips_W empty_block 54 = 0xB69EEC4D0E03246F"
  by (simp add: fips_W.simps [of empty_block 54] W38 W52 W47 W39 sigma_eval)

lemma W55: "fips_W empty_block 55 = 0xC913F017B2AC853A"
  by (simp add: fips_W.simps [of empty_block 55] W39 W53 W48 W40 sigma_eval)

lemma W56: "fips_W empty_block 56 = 0x66221AF93A4225BB"
  by (simp add: fips_W.simps [of empty_block 56] W40 W54 W49 W41 sigma_eval)

lemma W57: "fips_W empty_block 57 = 0x022066FA965F2DBF"
  by (simp add: fips_W.simps [of empty_block 57] W41 W55 W50 W42 sigma_eval)

lemma W58: "fips_W empty_block 58 = 0x98519AF83AC7C4D8"
  by (simp add: fips_W.simps [of empty_block 58] W42 W56 W51 W43 sigma_eval)

lemma W59: "fips_W empty_block 59 = 0xA9D9B257EA80F60F"
  by (simp add: fips_W.simps [of empty_block 59] W43 W57 W52 W44 sigma_eval)

lemma W60: "fips_W empty_block 60 = 0xB741F8B59C416C21"
  by (simp add: fips_W.simps [of empty_block 60] W44 W58 W53 W45 sigma_eval)

lemma W61: "fips_W empty_block 61 = 0xA3DE4A86A2CDBEFB"
  by (simp add: fips_W.simps [of empty_block 61] W45 W59 W54 W46 sigma_eval)

lemma W62: "fips_W empty_block 62 = 0xA6E929FABF4B5FA6"
  by (simp add: fips_W.simps [of empty_block 62] W46 W60 W55 W47 sigma_eval)

lemma W63: "fips_W empty_block 63 = 0xEABFCD669F8D15A1"
  by (simp add: fips_W.simps [of empty_block 63] W47 W61 W56 W48 sigma_eval)

lemma W64: "fips_W empty_block 64 = 0x31543ABE8DF78E7B"
  by (simp add: fips_W.simps [of empty_block 64] W48 W62 W57 W49 sigma_eval)

lemma W65: "fips_W empty_block 65 = 0x47A4D932DE3912AA"
  by (simp add: fips_W.simps [of empty_block 65] W49 W63 W58 W50 sigma_eval)

lemma W66: "fips_W empty_block 66 = 0x1B7B74730D955557"
  by (simp add: fips_W.simps [of empty_block 66] W50 W64 W59 W51 sigma_eval)

lemma W67: "fips_W empty_block 67 = 0x28479D455A812EB7"
  by (simp add: fips_W.simps [of empty_block 67] W51 W65 W60 W52 sigma_eval)

lemma W68: "fips_W empty_block 68 = 0x43E290AA2B8DFBB6"
  by (simp add: fips_W.simps [of empty_block 68] W52 W66 W61 W53 sigma_eval)

lemma W69: "fips_W empty_block 69 = 0x9A10DAA95E094E1F"
  by (simp add: fips_W.simps [of empty_block 69] W53 W67 W62 W54 sigma_eval)

lemma W70: "fips_W empty_block 70 = 0xA29F4D3F35E6A04F"
  by (simp add: fips_W.simps [of empty_block 70] W54 W68 W63 W55 sigma_eval)

lemma W71: "fips_W empty_block 71 = 0xFE50FB8C257B666D"
  by (simp add: fips_W.simps [of empty_block 71] W55 W69 W64 W56 sigma_eval)

lemma W72: "fips_W empty_block 72 = 0xAE5728A117562E4E"
  by (simp add: fips_W.simps [of empty_block 72] W56 W70 W65 W57 sigma_eval)

lemma W73: "fips_W empty_block 73 = 0x50CF3B85BD608790"
  by (simp add: fips_W.simps [of empty_block 73] W57 W71 W66 W58 sigma_eval)

lemma W74: "fips_W empty_block 74 = 0x5079B89B7EC0F5D2"
  by (simp add: fips_W.simps [of empty_block 74] W58 W72 W67 W59 sigma_eval)

lemma W75: "fips_W empty_block 75 = 0x80FE6C2F41147099"
  by (simp add: fips_W.simps [of empty_block 75] W59 W73 W68 W60 sigma_eval)

lemma W76: "fips_W empty_block 76 = 0x1894833281BC069B"
  by (simp add: fips_W.simps [of empty_block 76] W60 W74 W69 W61 sigma_eval)

lemma W77: "fips_W empty_block 77 = 0xC700F022A13B0EA9"
  by (simp add: fips_W.simps [of empty_block 77] W61 W75 W70 W62 sigma_eval)

lemma W78: "fips_W empty_block 78 = 0x3EAF74F620AD78F6"
  by (simp add: fips_W.simps [of empty_block 78] W62 W76 W71 W63 sigma_eval)

lemma W79: "fips_W empty_block 79 = 0xD7DF914DD9A9F0F1"
  by (simp add: fips_W.simps [of empty_block 79] W63 W77 W72 W64 sigma_eval)

text \<open>
  The working variables after each of the eighty rounds on that block, from the initial
  state, each from the round before.
\<close>

lemma R0: "fips_rounds M 0 v = v"
  by (simp add: fips_rounds_def)

lemma R1:
  "fips_rounds empty_block (Suc 0) SHA512_256_IV =
     (0xB8CD0991C39458FE, 0x22312194FC2BF72C, 0x9F555FA3C84C64C2, 0x2393B86B6F53B151,
      0x57A66E1FBCAF1B12, 0x96283EE2A88EFFE3, 0xBE5E1E2553863992, 0x2B0199FC2C85B8AA)"
  using fips_rounds_Suc [of empty_block 0 SHA512_256_IV]
  by (simp add: R0 IV_eq W0 round_eval)

lemma R2:
  "fips_rounds empty_block 2 SHA512_256_IV =
     (0x248174A58E74DEF2, 0xB8CD0991C39458FE, 0x22312194FC2BF72C, 0x9F555FA3C84C64C2,
      0x239872195629D9EA, 0x57A66E1FBCAF1B12, 0x96283EE2A88EFFE3, 0xBE5E1E2553863992)"
proof -
  have "fips_rounds empty_block 2 SHA512_256_IV =
      fips_round (fips_rounds empty_block (Suc 0) SHA512_256_IV) (K ! Suc 0)
        (fips_W empty_block (Suc 0))"
    by (simp only: numeral_2_eq_2 fips_rounds_Suc)
  then show ?thesis
    by (simp add: R1 W1 round_eval)
qed

lemma R3:
  "fips_rounds empty_block 3 SHA512_256_IV =
     (0x1985EE151228696E, 0x248174A58E74DEF2, 0xB8CD0991C39458FE, 0x22312194FC2BF72C,
      0xC88DFAFFE6C1D99A, 0x239872195629D9EA, 0x57A66E1FBCAF1B12, 0x96283EE2A88EFFE3)"
  using fips_rounds_Suc [of empty_block 2 SHA512_256_IV]
  by (simp add: R2 W2 round_eval)

lemma R4:
  "fips_rounds empty_block 4 SHA512_256_IV =
     (0x8C35CA9824ADC579, 0x1985EE151228696E, 0x248174A58E74DEF2, 0xB8CD0991C39458FE,
      0x29B8A32EDC98D29F, 0xC88DFAFFE6C1D99A, 0x239872195629D9EA, 0x57A66E1FBCAF1B12)"
  using fips_rounds_Suc [of empty_block 3 SHA512_256_IV]
  by (simp add: R3 W3 round_eval)

lemma R5:
  "fips_rounds empty_block 5 SHA512_256_IV =
     (0x057FAF82BBF44183, 0x8C35CA9824ADC579, 0x1985EE151228696E, 0x248174A58E74DEF2,
      0x3E084D3326121C56, 0x29B8A32EDC98D29F, 0xC88DFAFFE6C1D99A, 0x239872195629D9EA)"
  using fips_rounds_Suc [of empty_block 4 SHA512_256_IV]
  by (simp add: R4 W4 round_eval)

lemma R6:
  "fips_rounds empty_block 6 SHA512_256_IV =
     (0xF7FA860AA0FCFF8A, 0x057FAF82BBF44183, 0x8C35CA9824ADC579, 0x1985EE151228696E,
      0xFA772B4C6C15B07D, 0x3E084D3326121C56, 0x29B8A32EDC98D29F, 0xC88DFAFFE6C1D99A)"
  using fips_rounds_Suc [of empty_block 5 SHA512_256_IV]
  by (simp add: R5 W5 round_eval)

lemma R7:
  "fips_rounds empty_block 7 SHA512_256_IV =
     (0xDA65719E1C490680, 0xF7FA860AA0FCFF8A, 0x057FAF82BBF44183, 0x8C35CA9824ADC579,
      0xBBBA9275B5BB763F, 0xFA772B4C6C15B07D, 0x3E084D3326121C56, 0x29B8A32EDC98D29F)"
  using fips_rounds_Suc [of empty_block 6 SHA512_256_IV]
  by (simp add: R6 W6 round_eval)

lemma R8:
  "fips_rounds empty_block 8 SHA512_256_IV =
     (0x29ED92361A24C9E5, 0xDA65719E1C490680, 0xF7FA860AA0FCFF8A, 0x057FAF82BBF44183,
      0x5EE8F9A2F45BB877, 0xBBBA9275B5BB763F, 0xFA772B4C6C15B07D, 0x3E084D3326121C56)"
  using fips_rounds_Suc [of empty_block 7 SHA512_256_IV]
  by (simp add: R7 W7 round_eval)

lemma R9:
  "fips_rounds empty_block 9 SHA512_256_IV =
     (0xF46983D49FDED323, 0x29ED92361A24C9E5, 0xDA65719E1C490680, 0xF7FA860AA0FCFF8A,
      0xB509BB812474A85E, 0x5EE8F9A2F45BB877, 0xBBBA9275B5BB763F, 0xFA772B4C6C15B07D)"
  using fips_rounds_Suc [of empty_block 8 SHA512_256_IV]
  by (simp add: R8 W8 round_eval)

lemma R10:
  "fips_rounds empty_block 10 SHA512_256_IV =
     (0xE347525B31D7CD20, 0xF46983D49FDED323, 0x29ED92361A24C9E5, 0xDA65719E1C490680,
      0x6FAF097DB81D7A4E, 0xB509BB812474A85E, 0x5EE8F9A2F45BB877, 0xBBBA9275B5BB763F)"
  using fips_rounds_Suc [of empty_block 9 SHA512_256_IV]
  by (simp add: R9 W9 round_eval)

lemma R11:
  "fips_rounds empty_block 11 SHA512_256_IV =
     (0x67845ED492CE73E2, 0xE347525B31D7CD20, 0xF46983D49FDED323, 0x29ED92361A24C9E5,
      0xF911AF4045DE31C0, 0x6FAF097DB81D7A4E, 0xB509BB812474A85E, 0x5EE8F9A2F45BB877)"
  using fips_rounds_Suc [of empty_block 10 SHA512_256_IV]
  by (simp add: R10 W10 round_eval)

lemma R12:
  "fips_rounds empty_block 12 SHA512_256_IV =
     (0x9506574FDA9079F2, 0x67845ED492CE73E2, 0xE347525B31D7CD20, 0xF46983D49FDED323,
      0x363D58783B6A7E74, 0xF911AF4045DE31C0, 0x6FAF097DB81D7A4E, 0xB509BB812474A85E)"
  using fips_rounds_Suc [of empty_block 11 SHA512_256_IV]
  by (simp add: R11 W11 round_eval)

lemma R13:
  "fips_rounds empty_block 13 SHA512_256_IV =
     (0xA2C87A86491AC758, 0x9506574FDA9079F2, 0x67845ED492CE73E2, 0xE347525B31D7CD20,
      0xF015065546143319, 0x363D58783B6A7E74, 0xF911AF4045DE31C0, 0x6FAF097DB81D7A4E)"
  using fips_rounds_Suc [of empty_block 12 SHA512_256_IV]
  by (simp add: R12 W12 round_eval)

lemma R14:
  "fips_rounds empty_block 14 SHA512_256_IV =
     (0xCAA36BAE5B412147, 0xA2C87A86491AC758, 0x9506574FDA9079F2, 0x67845ED492CE73E2,
      0xF6ED6D6FFD0E5445, 0xF015065546143319, 0x363D58783B6A7E74, 0xF911AF4045DE31C0)"
  using fips_rounds_Suc [of empty_block 13 SHA512_256_IV]
  by (simp add: R13 W13 round_eval)

lemma R15:
  "fips_rounds empty_block 15 SHA512_256_IV =
     (0xF9F2455FB044841D, 0xCAA36BAE5B412147, 0xA2C87A86491AC758, 0x9506574FDA9079F2,
      0x607F4A3610F76FD4, 0xF6ED6D6FFD0E5445, 0xF015065546143319, 0x363D58783B6A7E74)"
  using fips_rounds_Suc [of empty_block 14 SHA512_256_IV]
  by (simp add: R14 W14 round_eval)

lemma R16:
  "fips_rounds empty_block 16 SHA512_256_IV =
     (0xAA0FCE08A52B971D, 0xF9F2455FB044841D, 0xCAA36BAE5B412147, 0xA2C87A86491AC758,
      0xFCF9CFF94BD06B8C, 0x607F4A3610F76FD4, 0xF6ED6D6FFD0E5445, 0xF015065546143319)"
  using fips_rounds_Suc [of empty_block 15 SHA512_256_IV]
  by (simp add: R15 W15 round_eval)

lemma R17:
  "fips_rounds empty_block 17 SHA512_256_IV =
     (0x5500117CC6B590B3, 0xAA0FCE08A52B971D, 0xF9F2455FB044841D, 0xCAA36BAE5B412147,
      0xA26B79C06D63C65A, 0xFCF9CFF94BD06B8C, 0x607F4A3610F76FD4, 0xF6ED6D6FFD0E5445)"
  using fips_rounds_Suc [of empty_block 16 SHA512_256_IV]
  by (simp add: R16 W16 round_eval)

lemma R18:
  "fips_rounds empty_block 18 SHA512_256_IV =
     (0x6C6EDB562B6328ED, 0x5500117CC6B590B3, 0xAA0FCE08A52B971D, 0xF9F2455FB044841D,
      0x9A96FD6EFE93A266, 0xA26B79C06D63C65A, 0xFCF9CFF94BD06B8C, 0x607F4A3610F76FD4)"
  using fips_rounds_Suc [of empty_block 17 SHA512_256_IV]
  by (simp add: R17 W17 round_eval)

lemma R19:
  "fips_rounds empty_block 19 SHA512_256_IV =
     (0x2BF4571671C78EA9, 0x6C6EDB562B6328ED, 0x5500117CC6B590B3, 0xAA0FCE08A52B971D,
      0x291B3E5D33B9A408, 0x9A96FD6EFE93A266, 0xA26B79C06D63C65A, 0xFCF9CFF94BD06B8C)"
  using fips_rounds_Suc [of empty_block 18 SHA512_256_IV]
  by (simp add: R18 W18 round_eval)

lemma R20:
  "fips_rounds empty_block 20 SHA512_256_IV =
     (0x9D833C06811F0E8F, 0x2BF4571671C78EA9, 0x6C6EDB562B6328ED, 0x5500117CC6B590B3,
      0x2D4430931A7390F7, 0x291B3E5D33B9A408, 0x9A96FD6EFE93A266, 0xA26B79C06D63C65A)"
  using fips_rounds_Suc [of empty_block 19 SHA512_256_IV]
  by (simp add: R19 W19 round_eval)

lemma R21:
  "fips_rounds empty_block 21 SHA512_256_IV =
     (0x74F75F94B6ED8FF7, 0x9D833C06811F0E8F, 0x2BF4571671C78EA9, 0x6C6EDB562B6328ED,
      0xDF5BFCB43BF408EC, 0x2D4430931A7390F7, 0x291B3E5D33B9A408, 0x9A96FD6EFE93A266)"
  using fips_rounds_Suc [of empty_block 20 SHA512_256_IV]
  by (simp add: R20 W20 round_eval)

lemma R22:
  "fips_rounds empty_block 22 SHA512_256_IV =
     (0x35E70C5C31B7C760, 0x74F75F94B6ED8FF7, 0x9D833C06811F0E8F, 0x2BF4571671C78EA9,
      0xFA5041062EA9A18D, 0xDF5BFCB43BF408EC, 0x2D4430931A7390F7, 0x291B3E5D33B9A408)"
  using fips_rounds_Suc [of empty_block 21 SHA512_256_IV]
  by (simp add: R21 W21 round_eval)

lemma R23:
  "fips_rounds empty_block 23 SHA512_256_IV =
     (0x37C2424053BC23F9, 0x35E70C5C31B7C760, 0x74F75F94B6ED8FF7, 0x9D833C06811F0E8F,
      0x7E5C94EC806159EF, 0xFA5041062EA9A18D, 0xDF5BFCB43BF408EC, 0x2D4430931A7390F7)"
  using fips_rounds_Suc [of empty_block 22 SHA512_256_IV]
  by (simp add: R22 W22 round_eval)

lemma R24:
  "fips_rounds empty_block 24 SHA512_256_IV =
     (0x4C88D54A51E8AE12, 0x37C2424053BC23F9, 0x35E70C5C31B7C760, 0x74F75F94B6ED8FF7,
      0x049A73D1DB8F049F, 0x7E5C94EC806159EF, 0xFA5041062EA9A18D, 0xDF5BFCB43BF408EC)"
  using fips_rounds_Suc [of empty_block 23 SHA512_256_IV]
  by (simp add: R23 W23 round_eval)

lemma R25:
  "fips_rounds empty_block 25 SHA512_256_IV =
     (0x07C6E45FBBE0FFD9, 0x4C88D54A51E8AE12, 0x37C2424053BC23F9, 0x35E70C5C31B7C760,
      0x28A8E3AFA1DB7803, 0x049A73D1DB8F049F, 0x7E5C94EC806159EF, 0xFA5041062EA9A18D)"
  using fips_rounds_Suc [of empty_block 24 SHA512_256_IV]
  by (simp add: R24 W24 round_eval)

lemma R26:
  "fips_rounds empty_block 26 SHA512_256_IV =
     (0xDE7DEC4E794331FB, 0x07C6E45FBBE0FFD9, 0x4C88D54A51E8AE12, 0x37C2424053BC23F9,
      0x1D2230C6C781D85E, 0x28A8E3AFA1DB7803, 0x049A73D1DB8F049F, 0x7E5C94EC806159EF)"
  using fips_rounds_Suc [of empty_block 25 SHA512_256_IV]
  by (simp add: R25 W25 round_eval)

lemma R27:
  "fips_rounds empty_block 27 SHA512_256_IV =
     (0xA1C32D6B94FF5ADF, 0xDE7DEC4E794331FB, 0x07C6E45FBBE0FFD9, 0x4C88D54A51E8AE12,
      0xF42735BC86DD7AD1, 0x1D2230C6C781D85E, 0x28A8E3AFA1DB7803, 0x049A73D1DB8F049F)"
  using fips_rounds_Suc [of empty_block 26 SHA512_256_IV]
  by (simp add: R26 W26 round_eval)

lemma R28:
  "fips_rounds empty_block 28 SHA512_256_IV =
     (0x82131B91C04DAD21, 0xA1C32D6B94FF5ADF, 0xDE7DEC4E794331FB, 0x07C6E45FBBE0FFD9,
      0xC8F07E940D51439F, 0xF42735BC86DD7AD1, 0x1D2230C6C781D85E, 0x28A8E3AFA1DB7803)"
  using fips_rounds_Suc [of empty_block 27 SHA512_256_IV]
  by (simp add: R27 W27 round_eval)

lemma R29:
  "fips_rounds empty_block 29 SHA512_256_IV =
     (0x552AEDDCBB71E4D0, 0x82131B91C04DAD21, 0xA1C32D6B94FF5ADF, 0xDE7DEC4E794331FB,
      0x835582E6A45250DF, 0xC8F07E940D51439F, 0xF42735BC86DD7AD1, 0x1D2230C6C781D85E)"
  using fips_rounds_Suc [of empty_block 28 SHA512_256_IV]
  by (simp add: R28 W28 round_eval)

lemma R30:
  "fips_rounds empty_block 30 SHA512_256_IV =
     (0x2D204C2C1E38A1F6, 0x552AEDDCBB71E4D0, 0x82131B91C04DAD21, 0xA1C32D6B94FF5ADF,
      0x69E632A81FAFB3B9, 0x835582E6A45250DF, 0xC8F07E940D51439F, 0xF42735BC86DD7AD1)"
  using fips_rounds_Suc [of empty_block 29 SHA512_256_IV]
  by (simp add: R29 W29 round_eval)

lemma R31:
  "fips_rounds empty_block 31 SHA512_256_IV =
     (0x884DEBB6F9A91902, 0x2D204C2C1E38A1F6, 0x552AEDDCBB71E4D0, 0x82131B91C04DAD21,
      0x68B685293F183C9F, 0x69E632A81FAFB3B9, 0x835582E6A45250DF, 0xC8F07E940D51439F)"
  using fips_rounds_Suc [of empty_block 30 SHA512_256_IV]
  by (simp add: R30 W30 round_eval)

lemma R32:
  "fips_rounds empty_block 32 SHA512_256_IV =
     (0xCCA5246A915C3003, 0x884DEBB6F9A91902, 0x2D204C2C1E38A1F6, 0x552AEDDCBB71E4D0,
      0xF886CDE57292E0FD, 0x68B685293F183C9F, 0x69E632A81FAFB3B9, 0x835582E6A45250DF)"
  using fips_rounds_Suc [of empty_block 31 SHA512_256_IV]
  by (simp add: R31 W31 round_eval)

lemma R33:
  "fips_rounds empty_block 33 SHA512_256_IV =
     (0x9A6B8C01FF9D8512, 0xCCA5246A915C3003, 0x884DEBB6F9A91902, 0x2D204C2C1E38A1F6,
      0xFEBA5953E2F4F2E5, 0xF886CDE57292E0FD, 0x68B685293F183C9F, 0x69E632A81FAFB3B9)"
  using fips_rounds_Suc [of empty_block 32 SHA512_256_IV]
  by (simp add: R32 W32 round_eval)

lemma R34:
  "fips_rounds empty_block 34 SHA512_256_IV =
     (0x2D40A885646D1D5D, 0x9A6B8C01FF9D8512, 0xCCA5246A915C3003, 0x884DEBB6F9A91902,
      0x4C333D2763F1BA4A, 0xFEBA5953E2F4F2E5, 0xF886CDE57292E0FD, 0x68B685293F183C9F)"
  using fips_rounds_Suc [of empty_block 33 SHA512_256_IV]
  by (simp add: R33 W33 round_eval)

lemma R35:
  "fips_rounds empty_block 35 SHA512_256_IV =
     (0xE51CE9625AD96496, 0x2D40A885646D1D5D, 0x9A6B8C01FF9D8512, 0xCCA5246A915C3003,
      0xCC06E0583A25455F, 0x4C333D2763F1BA4A, 0xFEBA5953E2F4F2E5, 0xF886CDE57292E0FD)"
  using fips_rounds_Suc [of empty_block 34 SHA512_256_IV]
  by (simp add: R34 W34 round_eval)

lemma R36:
  "fips_rounds empty_block 36 SHA512_256_IV =
     (0x77F4F60DB8DFB6F6, 0xE51CE9625AD96496, 0x2D40A885646D1D5D, 0x9A6B8C01FF9D8512,
      0x97BBCFF4061B4C34, 0xCC06E0583A25455F, 0x4C333D2763F1BA4A, 0xFEBA5953E2F4F2E5)"
  using fips_rounds_Suc [of empty_block 35 SHA512_256_IV]
  by (simp add: R35 W35 round_eval)

lemma R37:
  "fips_rounds empty_block 37 SHA512_256_IV =
     (0x710419ACC25D912F, 0x77F4F60DB8DFB6F6, 0xE51CE9625AD96496, 0x2D40A885646D1D5D,
      0xAD5D7FF23AC02CB7, 0x97BBCFF4061B4C34, 0xCC06E0583A25455F, 0x4C333D2763F1BA4A)"
  using fips_rounds_Suc [of empty_block 36 SHA512_256_IV]
  by (simp add: R36 W36 round_eval)

lemma R38:
  "fips_rounds empty_block 38 SHA512_256_IV =
     (0x1D32C2892B163624, 0x710419ACC25D912F, 0x77F4F60DB8DFB6F6, 0xE51CE9625AD96496,
      0x8893A44321C30A37, 0xAD5D7FF23AC02CB7, 0x97BBCFF4061B4C34, 0xCC06E0583A25455F)"
  using fips_rounds_Suc [of empty_block 37 SHA512_256_IV]
  by (simp add: R37 W37 round_eval)

lemma R39:
  "fips_rounds empty_block 39 SHA512_256_IV =
     (0x18A1326B80B41C2E, 0x1D32C2892B163624, 0x710419ACC25D912F, 0x77F4F60DB8DFB6F6,
      0x9E98859B94D2CCE9, 0x8893A44321C30A37, 0xAD5D7FF23AC02CB7, 0x97BBCFF4061B4C34)"
  using fips_rounds_Suc [of empty_block 38 SHA512_256_IV]
  by (simp add: R38 W38 round_eval)

lemma R40:
  "fips_rounds empty_block 40 SHA512_256_IV =
     (0xDF1146B61A649130, 0x18A1326B80B41C2E, 0x1D32C2892B163624, 0x710419ACC25D912F,
      0x01787C4801260BB2, 0x9E98859B94D2CCE9, 0x8893A44321C30A37, 0xAD5D7FF23AC02CB7)"
  using fips_rounds_Suc [of empty_block 39 SHA512_256_IV]
  by (simp add: R39 W39 round_eval)

lemma R41:
  "fips_rounds empty_block 41 SHA512_256_IV =
     (0xC84029B74B0B1AB6, 0xDF1146B61A649130, 0x18A1326B80B41C2E, 0x1D32C2892B163624,
      0xCF2E02555BC67F80, 0x01787C4801260BB2, 0x9E98859B94D2CCE9, 0x8893A44321C30A37)"
  using fips_rounds_Suc [of empty_block 40 SHA512_256_IV]
  by (simp add: R40 W40 round_eval)

lemma R42:
  "fips_rounds empty_block 42 SHA512_256_IV =
     (0xAB37D64FF16B4189, 0xC84029B74B0B1AB6, 0xDF1146B61A649130, 0x18A1326B80B41C2E,
      0xE383FA2DB6DB4E2D, 0xCF2E02555BC67F80, 0x01787C4801260BB2, 0x9E98859B94D2CCE9)"
  using fips_rounds_Suc [of empty_block 41 SHA512_256_IV]
  by (simp add: R41 W41 round_eval)

lemma R43:
  "fips_rounds empty_block 43 SHA512_256_IV =
     (0x5A6DEBE51B4080D6, 0xAB37D64FF16B4189, 0xC84029B74B0B1AB6, 0xDF1146B61A649130,
      0x32F1B91D75A28C94, 0xE383FA2DB6DB4E2D, 0xCF2E02555BC67F80, 0x01787C4801260BB2)"
  using fips_rounds_Suc [of empty_block 42 SHA512_256_IV]
  by (simp add: R42 W42 round_eval)

lemma R44:
  "fips_rounds empty_block 44 SHA512_256_IV =
     (0xD822A4626A3ACBE4, 0x5A6DEBE51B4080D6, 0xAB37D64FF16B4189, 0xC84029B74B0B1AB6,
      0xB3DF52DF8C633CFF, 0x32F1B91D75A28C94, 0xE383FA2DB6DB4E2D, 0xCF2E02555BC67F80)"
  using fips_rounds_Suc [of empty_block 43 SHA512_256_IV]
  by (simp add: R43 W43 round_eval)

lemma R45:
  "fips_rounds empty_block 45 SHA512_256_IV =
     (0x3EC144D88F259BCE, 0xD822A4626A3ACBE4, 0x5A6DEBE51B4080D6, 0xAB37D64FF16B4189,
      0x2EE30F04E1334A4A, 0xB3DF52DF8C633CFF, 0x32F1B91D75A28C94, 0xE383FA2DB6DB4E2D)"
  using fips_rounds_Suc [of empty_block 44 SHA512_256_IV]
  by (simp add: R44 W44 round_eval)

lemma R46:
  "fips_rounds empty_block 46 SHA512_256_IV =
     (0x6AEF4F8ECA8E44AA, 0x3EC144D88F259BCE, 0xD822A4626A3ACBE4, 0x5A6DEBE51B4080D6,
      0x5B36AFD6B0FF5C36, 0x2EE30F04E1334A4A, 0xB3DF52DF8C633CFF, 0x32F1B91D75A28C94)"
  using fips_rounds_Suc [of empty_block 45 SHA512_256_IV]
  by (simp add: R45 W45 round_eval)

lemma R47:
  "fips_rounds empty_block 47 SHA512_256_IV =
     (0x091F7AD1099AE1FE, 0x6AEF4F8ECA8E44AA, 0x3EC144D88F259BCE, 0xD822A4626A3ACBE4,
      0xE0D75AE5FA11A156, 0x5B36AFD6B0FF5C36, 0x2EE30F04E1334A4A, 0xB3DF52DF8C633CFF)"
  using fips_rounds_Suc [of empty_block 46 SHA512_256_IV]
  by (simp add: R46 W46 round_eval)

lemma R48:
  "fips_rounds empty_block 48 SHA512_256_IV =
     (0x7AEFCEFF5B6340F4, 0x091F7AD1099AE1FE, 0x6AEF4F8ECA8E44AA, 0x3EC144D88F259BCE,
      0xAE67922C4A6CFD99, 0xE0D75AE5FA11A156, 0x5B36AFD6B0FF5C36, 0x2EE30F04E1334A4A)"
  using fips_rounds_Suc [of empty_block 47 SHA512_256_IV]
  by (simp add: R47 W47 round_eval)

lemma R49:
  "fips_rounds empty_block 49 SHA512_256_IV =
     (0x269957714D52A535, 0x7AEFCEFF5B6340F4, 0x091F7AD1099AE1FE, 0x6AEF4F8ECA8E44AA,
      0x5C11336F383B3C2E, 0xAE67922C4A6CFD99, 0xE0D75AE5FA11A156, 0x5B36AFD6B0FF5C36)"
  using fips_rounds_Suc [of empty_block 48 SHA512_256_IV]
  by (simp add: R48 W48 round_eval)

lemma R50:
  "fips_rounds empty_block 50 SHA512_256_IV =
     (0x7118049F7079A50B, 0x269957714D52A535, 0x7AEFCEFF5B6340F4, 0x091F7AD1099AE1FE,
      0x4C8395E7A736F75B, 0x5C11336F383B3C2E, 0xAE67922C4A6CFD99, 0xE0D75AE5FA11A156)"
  using fips_rounds_Suc [of empty_block 49 SHA512_256_IV]
  by (simp add: R49 W49 round_eval)

lemma R51:
  "fips_rounds empty_block 51 SHA512_256_IV =
     (0x874611E281EE8737, 0x7118049F7079A50B, 0x269957714D52A535, 0x7AEFCEFF5B6340F4,
      0x38677AF456F14B27, 0x4C8395E7A736F75B, 0x5C11336F383B3C2E, 0xAE67922C4A6CFD99)"
  using fips_rounds_Suc [of empty_block 50 SHA512_256_IV]
  by (simp add: R50 W50 round_eval)

lemma R52:
  "fips_rounds empty_block 52 SHA512_256_IV =
     (0xAE18C8AE9EA86FF4, 0x874611E281EE8737, 0x7118049F7079A50B, 0x269957714D52A535,
      0x866071FEBDD2F53E, 0x38677AF456F14B27, 0x4C8395E7A736F75B, 0x5C11336F383B3C2E)"
  using fips_rounds_Suc [of empty_block 51 SHA512_256_IV]
  by (simp add: R51 W51 round_eval)

lemma R53:
  "fips_rounds empty_block 53 SHA512_256_IV =
     (0x39B4A71285E8B405, 0xAE18C8AE9EA86FF4, 0x874611E281EE8737, 0x7118049F7079A50B,
      0xA924496D1EFC28B0, 0x866071FEBDD2F53E, 0x38677AF456F14B27, 0x4C8395E7A736F75B)"
  using fips_rounds_Suc [of empty_block 52 SHA512_256_IV]
  by (simp add: R52 W52 round_eval)

lemma R54:
  "fips_rounds empty_block 54 SHA512_256_IV =
     (0xAA78AD1DD820E96A, 0x39B4A71285E8B405, 0xAE18C8AE9EA86FF4, 0x874611E281EE8737,
      0x918173DFE35DB59E, 0xA924496D1EFC28B0, 0x866071FEBDD2F53E, 0x38677AF456F14B27)"
  using fips_rounds_Suc [of empty_block 53 SHA512_256_IV]
  by (simp add: R53 W53 round_eval)

lemma R55:
  "fips_rounds empty_block 55 SHA512_256_IV =
     (0xA0DF59FECCE061F5, 0xAA78AD1DD820E96A, 0x39B4A71285E8B405, 0xAE18C8AE9EA86FF4,
      0xAE35D19FD9E5F008, 0x918173DFE35DB59E, 0xA924496D1EFC28B0, 0x866071FEBDD2F53E)"
  using fips_rounds_Suc [of empty_block 54 SHA512_256_IV]
  by (simp add: R54 W54 round_eval)

lemma R56:
  "fips_rounds empty_block 56 SHA512_256_IV =
     (0xD61502AFA0444F5E, 0xA0DF59FECCE061F5, 0xAA78AD1DD820E96A, 0x39B4A71285E8B405,
      0x5A89565AE387E6CD, 0xAE35D19FD9E5F008, 0x918173DFE35DB59E, 0xA924496D1EFC28B0)"
  using fips_rounds_Suc [of empty_block 55 SHA512_256_IV]
  by (simp add: R55 W55 round_eval)

lemma R57:
  "fips_rounds empty_block 57 SHA512_256_IV =
     (0xB441D0CD15360EA8, 0xD61502AFA0444F5E, 0xA0DF59FECCE061F5, 0xAA78AD1DD820E96A,
      0x9883FF7B694518DB, 0x5A89565AE387E6CD, 0xAE35D19FD9E5F008, 0x918173DFE35DB59E)"
  using fips_rounds_Suc [of empty_block 56 SHA512_256_IV]
  by (simp add: R56 W56 round_eval)

lemma R58:
  "fips_rounds empty_block 58 SHA512_256_IV =
     (0x244511F7DB437D7F, 0xB441D0CD15360EA8, 0xD61502AFA0444F5E, 0xA0DF59FECCE061F5,
      0x8E6168E9F69A1BAA, 0x9883FF7B694518DB, 0x5A89565AE387E6CD, 0xAE35D19FD9E5F008)"
  using fips_rounds_Suc [of empty_block 57 SHA512_256_IV]
  by (simp add: R57 W57 round_eval)

lemma R59:
  "fips_rounds empty_block 59 SHA512_256_IV =
     (0xA22BD97F48CE153C, 0x244511F7DB437D7F, 0xB441D0CD15360EA8, 0xD61502AFA0444F5E,
      0xE1749437115F5690, 0x8E6168E9F69A1BAA, 0x9883FF7B694518DB, 0x5A89565AE387E6CD)"
  using fips_rounds_Suc [of empty_block 58 SHA512_256_IV]
  by (simp add: R58 W58 round_eval)

lemma R60:
  "fips_rounds empty_block 60 SHA512_256_IV =
     (0x0301A4F76AE1C048, 0xA22BD97F48CE153C, 0x244511F7DB437D7F, 0xB441D0CD15360EA8,
      0x94918AF83E6CBC51, 0xE1749437115F5690, 0x8E6168E9F69A1BAA, 0x9883FF7B694518DB)"
  using fips_rounds_Suc [of empty_block 59 SHA512_256_IV]
  by (simp add: R59 W59 round_eval)

lemma R61:
  "fips_rounds empty_block 61 SHA512_256_IV =
     (0xC9B622A346FBF448, 0x0301A4F76AE1C048, 0xA22BD97F48CE153C, 0x244511F7DB437D7F,
      0xC184AA6670928872, 0x94918AF83E6CBC51, 0xE1749437115F5690, 0x8E6168E9F69A1BAA)"
  using fips_rounds_Suc [of empty_block 60 SHA512_256_IV]
  by (simp add: R60 W60 round_eval)

lemma R62:
  "fips_rounds empty_block 62 SHA512_256_IV =
     (0xA420AD72E721B6BA, 0xC9B622A346FBF448, 0x0301A4F76AE1C048, 0xA22BD97F48CE153C,
      0x4CB5CFFD3EDC9118, 0xC184AA6670928872, 0x94918AF83E6CBC51, 0xE1749437115F5690)"
  using fips_rounds_Suc [of empty_block 61 SHA512_256_IV]
  by (simp add: R61 W61 round_eval)

lemma R63:
  "fips_rounds empty_block 63 SHA512_256_IV =
     (0x65D2269D797C7B2E, 0xA420AD72E721B6BA, 0xC9B622A346FBF448, 0x0301A4F76AE1C048,
      0x58C015BFBD1DDEFA, 0x4CB5CFFD3EDC9118, 0xC184AA6670928872, 0x94918AF83E6CBC51)"
  using fips_rounds_Suc [of empty_block 62 SHA512_256_IV]
  by (simp add: R62 W62 round_eval)

lemma R64:
  "fips_rounds empty_block 64 SHA512_256_IV =
     (0xBBED78BD6CDF6AD6, 0x65D2269D797C7B2E, 0xA420AD72E721B6BA, 0xC9B622A346FBF448,
      0xE5D2A225D7A9F0B7, 0x58C015BFBD1DDEFA, 0x4CB5CFFD3EDC9118, 0xC184AA6670928872)"
  using fips_rounds_Suc [of empty_block 63 SHA512_256_IV]
  by (simp add: R63 W63 round_eval)

lemma R65:
  "fips_rounds empty_block 65 SHA512_256_IV =
     (0x43F822814CD39625, 0xBBED78BD6CDF6AD6, 0x65D2269D797C7B2E, 0xA420AD72E721B6BA,
      0x7BB54F5B68F700A7, 0xE5D2A225D7A9F0B7, 0x58C015BFBD1DDEFA, 0x4CB5CFFD3EDC9118)"
  using fips_rounds_Suc [of empty_block 64 SHA512_256_IV]
  by (simp add: R64 W64 round_eval)

lemma R66:
  "fips_rounds empty_block 66 SHA512_256_IV =
     (0x373E03E3E4623325, 0x43F822814CD39625, 0xBBED78BD6CDF6AD6, 0x65D2269D797C7B2E,
      0xDAD26DC838A89EC8, 0x7BB54F5B68F700A7, 0xE5D2A225D7A9F0B7, 0x58C015BFBD1DDEFA)"
  using fips_rounds_Suc [of empty_block 65 SHA512_256_IV]
  by (simp add: R65 W65 round_eval)

lemma R67:
  "fips_rounds empty_block 67 SHA512_256_IV =
     (0x44237EC7B189FACA, 0x373E03E3E4623325, 0x43F822814CD39625, 0xBBED78BD6CDF6AD6,
      0xFD0607C749F18112, 0xDAD26DC838A89EC8, 0x7BB54F5B68F700A7, 0xE5D2A225D7A9F0B7)"
  using fips_rounds_Suc [of empty_block 66 SHA512_256_IV]
  by (simp add: R66 W66 round_eval)

lemma R68:
  "fips_rounds empty_block 68 SHA512_256_IV =
     (0x28CF75038D4E0FA0, 0x44237EC7B189FACA, 0x373E03E3E4623325, 0x43F822814CD39625,
      0x21E40919CDB2531A, 0xFD0607C749F18112, 0xDAD26DC838A89EC8, 0x7BB54F5B68F700A7)"
  using fips_rounds_Suc [of empty_block 67 SHA512_256_IV]
  by (simp add: R67 W67 round_eval)

lemma R69:
  "fips_rounds empty_block 69 SHA512_256_IV =
     (0x6AC0E1EB976600BC, 0x28CF75038D4E0FA0, 0x44237EC7B189FACA, 0x373E03E3E4623325,
      0x59DFA6B3785A47AF, 0x21E40919CDB2531A, 0xFD0607C749F18112, 0xDAD26DC838A89EC8)"
  using fips_rounds_Suc [of empty_block 68 SHA512_256_IV]
  by (simp add: R68 W68 round_eval)

lemma R70:
  "fips_rounds empty_block 70 SHA512_256_IV =
     (0xA95021638BB5CAFB, 0x6AC0E1EB976600BC, 0x28CF75038D4E0FA0, 0x44237EC7B189FACA,
      0x3333679B0C5E4C78, 0x59DFA6B3785A47AF, 0x21E40919CDB2531A, 0xFD0607C749F18112)"
  using fips_rounds_Suc [of empty_block 69 SHA512_256_IV]
  by (simp add: R69 W69 round_eval)

lemma R71:
  "fips_rounds empty_block 71 SHA512_256_IV =
     (0xF99C22BB9BC9BAF0, 0xA95021638BB5CAFB, 0x6AC0E1EB976600BC, 0x28CF75038D4E0FA0,
      0x7658898E35E8ECE0, 0x3333679B0C5E4C78, 0x59DFA6B3785A47AF, 0x21E40919CDB2531A)"
  using fips_rounds_Suc [of empty_block 70 SHA512_256_IV]
  by (simp add: R70 W70 round_eval)

lemma R72:
  "fips_rounds empty_block 72 SHA512_256_IV =
     (0xDE0EDCCAA9406CF8, 0xF99C22BB9BC9BAF0, 0xA95021638BB5CAFB, 0x6AC0E1EB976600BC,
      0xEFAFDD1C5452D64E, 0x7658898E35E8ECE0, 0x3333679B0C5E4C78, 0x59DFA6B3785A47AF)"
  using fips_rounds_Suc [of empty_block 71 SHA512_256_IV]
  by (simp add: R71 W71 round_eval)

lemma R73:
  "fips_rounds empty_block 73 SHA512_256_IV =
     (0xADCD946E25D7A4BB, 0xDE0EDCCAA9406CF8, 0xF99C22BB9BC9BAF0, 0xA95021638BB5CAFB,
      0x746E01040AA9545E, 0xEFAFDD1C5452D64E, 0x7658898E35E8ECE0, 0x3333679B0C5E4C78)"
  using fips_rounds_Suc [of empty_block 72 SHA512_256_IV]
  by (simp add: R72 W72 round_eval)

lemma R74:
  "fips_rounds empty_block 74 SHA512_256_IV =
     (0xA94792FBD5E57A61, 0xADCD946E25D7A4BB, 0xDE0EDCCAA9406CF8, 0xF99C22BB9BC9BAF0,
      0x4CC7119776E7DF93, 0x746E01040AA9545E, 0xEFAFDD1C5452D64E, 0x7658898E35E8ECE0)"
  using fips_rounds_Suc [of empty_block 73 SHA512_256_IV]
  by (simp add: R73 W73 round_eval)

lemma R75:
  "fips_rounds empty_block 75 SHA512_256_IV =
     (0x36C72862FC030C99, 0xA94792FBD5E57A61, 0xADCD946E25D7A4BB, 0xDE0EDCCAA9406CF8,
      0x268E83BDB48D166A, 0x4CC7119776E7DF93, 0x746E01040AA9545E, 0xEFAFDD1C5452D64E)"
  using fips_rounds_Suc [of empty_block 74 SHA512_256_IV]
  by (simp add: R74 W74 round_eval)

lemma R76:
  "fips_rounds empty_block 76 SHA512_256_IV =
     (0x3429A4CF149D91BF, 0x36C72862FC030C99, 0xA94792FBD5E57A61, 0xADCD946E25D7A4BB,
      0xA9A8E482B4680F97, 0x268E83BDB48D166A, 0x4CC7119776E7DF93, 0x746E01040AA9545E)"
  using fips_rounds_Suc [of empty_block 75 SHA512_256_IV]
  by (simp add: R75 W75 round_eval)

lemma R77:
  "fips_rounds empty_block 77 SHA512_256_IV =
     (0x0298490575AFABBD, 0x3429A4CF149D91BF, 0x36C72862FC030C99, 0xA94792FBD5E57A61,
      0x6946F7C7D509C134, 0xA9A8E482B4680F97, 0x268E83BDB48D166A, 0x4CC7119776E7DF93)"
  using fips_rounds_Suc [of empty_block 76 SHA512_256_IV]
  by (simp add: R76 W76 round_eval)

lemma R78:
  "fips_rounds empty_block 78 SHA512_256_IV =
     (0x7849826C49A5C223, 0x0298490575AFABBD, 0x3429A4CF149D91BF, 0x36C72862FC030C99,
      0xDD8DDEB897D40043, 0x6946F7C7D509C134, 0xA9A8E482B4680F97, 0x268E83BDB48D166A)"
  using fips_rounds_Suc [of empty_block 77 SHA512_256_IV]
  by (simp add: R77 W77 round_eval)

lemma R79:
  "fips_rounds empty_block 79 SHA512_256_IV =
     (0x0C3263BE6404AF44, 0x7849826C49A5C223, 0x0298490575AFABBD, 0x3429A4CF149D91BF,
      0xC249F298EDDF62C3, 0xDD8DDEB897D40043, 0x6946F7C7D509C134, 0xA9A8E482B4680F97)"
  using fips_rounds_Suc [of empty_block 78 SHA512_256_IV]
  by (simp add: R78 W78 round_eval)

lemma R80:
  "fips_rounds empty_block 80 SHA512_256_IV =
     (0xA441973CF32AF5FC, 0x0C3263BE6404AF44, 0x7849826C49A5C223, 0x0298490575AFABBD,
      0x2ACF221059F014C8, 0xC249F298EDDF62C3, 0xDD8DDEB897D40043, 0x6946F7C7D509C134)"
  using fips_rounds_Suc [of empty_block 79 SHA512_256_IV]
  by (simp add: R79 W79 round_eval)

lemma compress_empty:
  "fips_compress SHA512_256_IV empty_block =
     (0xC672B8D1EF56ED28, 0xAB87C3622C511406, 0x9BDD3AD7B8F97374, 0x98D0C01ECEF0967A,
      0xC0F760F3027F14AB, 0x80A810BE41659C55, 0x088F78B4C459B8ED, 0x77FE25A456CEEDD6)"
  by (simp add: fips_compress_def R80) (simp add: IV_eq)

lemma PUT_64BIT_BE_bytes:
  "PUT_64BIT_BE v = [ucast (drop_bit 56 v), ucast (drop_bit 48 v), ucast (drop_bit 40 v),
     ucast (drop_bit 32 v), ucast (drop_bit 24 v), ucast (drop_bit 16 v), ucast (drop_bit 8 v),
     ucast v]"
  using upt8 [of 0] by (simp add: PUT_64BIT_BE_def)

lemma PUT_64BIT_BE_0: "PUT_64BIT_BE 0 = replicate 8 0"
  by (simp add: PUT_64BIT_BE_def map_replicate_trivial [symmetric])

lemma finish_pad_init:
  assumes "length (buffer ctx) = 128"
  shows "H (finish_pad small (MHD_SHA512_256_init ctx)) = SHA512_256_IV"
    and "buffer (finish_pad small (MHD_SHA512_256_init ctx)) = empty_block"
proof -
  have c: "count (MHD_SHA512_256_init ctx) = 0" "count_bits_hi (MHD_SHA512_256_init ctx) = 0"
    and b: "length (buffer (MHD_SHA512_256_init ctx)) = 128"
    using assms by (simp_all add: MHD_SHA512_256_init_def)
  have "replicate 111 0 @ replicate 8 0 @ replicate 8 (0 :: u8) = replicate 127 0"
    by (simp add: replicate_add [symmetric])
  then have e: "0x80 # replicate 111 0 @ PUT_64BIT_BE 0 @ PUT_64BIT_BE 0 = empty_block"
    by (simp only: PUT_64BIT_BE_0 empty_block_def)
  show "H (finish_pad small (MHD_SHA512_256_init ctx)) = SHA512_256_IV"
    by (simp add: finish_pad_eq [OF b] c H_init)
  show "buffer (finish_pad small (MHD_SHA512_256_init ctx)) = empty_block"
    using e by (simp add: finish_pad_eq [OF b] c)
qed

lemma finish_init_digest:
  assumes "length (buffer ctx) = 128"
  shows "fst (MHD_SHA512_256_finish small (MHD_SHA512_256_init ctx)) =
    [0xC6, 0x72, 0xB8, 0xD1, 0xEF, 0x56, 0xED, 0x28, 0xAB, 0x87, 0xC3, 0x62, 0x2C, 0x51, 0x14, 0x06,
     0x9B, 0xDD, 0x3A, 0xD7, 0xB8, 0xF9, 0x73, 0x74, 0x98, 0xD0, 0xC0, 0x1E, 0xCE, 0xF0, 0x96, 0x7A]"
proof -
  have "H (finish_transform small (MHD_SHA512_256_init ctx))
      = fips_compress SHA512_256_IV empty_block"
    by (simp add: finish_transform_def Let_def finish_pad_init [OF assms] transform_fips)
  then show ?thesis
    by (simp add: MHD_SHA512_256_finish_def Let_def compress_empty PUT_64BIT_BE_bytes)
qed

lemma finish_init_hex:
  assumes "length (buffer ctx) = 128"
  shows "hex_encode (fst (MHD_SHA512_256_finish small (MHD_SHA512_256_init ctx)))
     = ''c672b8d1ef56ed28ab87c3622c5114069bdd3ad7b8f9737498d0c01ecef0967a''"
  by (simp add: finish_init_digest [OF assms] hex_encode_def hex_digit_def)

text \<open>
  Claim C1, as amended. For a context made by init, with no update or with one update of no
  bytes (which leaves the context as it is), the finish yields the 32 bytes of the
  SHA-512/256 digest of the empty message, in hexadecimal
  \<open>c672b8d1ef56ed28ab87c3622c5114069bdd3ad7b8f9737498d0c01ecef0967a\<close>, in both builds.
\<close>

theorem empty_message_digest:
  assumes "length (buffer ctx) = SHA512_256_BLOCK_SIZE"
  shows "fst (MHD_SHA512_256_finish small (MHD_SHA512_256_init ctx)) =
      [0xC6, 0x72, 0xB8, 0xD1, 0xEF, 0x56, 0xED, 0x28, 0xAB, 0x87, 0xC3, 0x62, 0x2C, 0x51, 0x14,
       0x06, 0x9B, 0xDD, 0x3A, 0xD7, 0xB8, 0xF9, 0x73, 0x74, 0x98, 0xD0, 0xC0, 0x1E, 0xCE, 0xF0,
       0x96, 0x7A]
    \<and> MHD_SHA512_256_update small (MHD_SHA512_256_init ctx) [] = MHD_SHA512_256_init ctx
    \<and> fst (MHD_SHA512_256_finish small
             (MHD_SHA512_256_update small (MHD_SHA512_256_init ctx) []))
      = fst (MHD_SHA512_256_finish small (MHD_SHA512_256_init ctx))
    \<and> hex_encode (fst (MHD_SHA512_256_finish small (MHD_SHA512_256_init ctx)))
      = ''c672b8d1ef56ed28ab87c3622c5114069bdd3ad7b8f9737498d0c01ecef0967a''"
proof -
  have len: "length (buffer ctx) = 128"
    using assms by (simp add: SHA512_256_BLOCK_SIZE_def)
  have "unat (count (MHD_SHA512_256_init ctx)) < 2 ^ 61"
    by (simp add: MHD_SHA512_256_init_def)
  then have "MHD_SHA512_256_update small (MHD_SHA512_256_init ctx) [] = MHD_SHA512_256_init ctx"
    by (rule update_empty)
  then show ?thesis
    using finish_init_digest [OF len, of small] finish_init_hex [OF len, of small]
    by (simp only: simp_thms)
qed

theorem empty_message_digest_witness:
  "length (buffer zero_ctx) = SHA512_256_BLOCK_SIZE
   \<and> fst (MHD_SHA512_256_finish False (MHD_SHA512_256_init zero_ctx)) =
      [0xC6, 0x72, 0xB8, 0xD1, 0xEF, 0x56, 0xED, 0x28, 0xAB, 0x87, 0xC3, 0x62, 0x2C, 0x51, 0x14,
       0x06, 0x9B, 0xDD, 0x3A, 0xD7, 0xB8, 0xF9, 0x73, 0x74, 0x98, 0xD0, 0xC0, 0x1E, 0xCE, 0xF0,
       0x96, 0x7A]"
proof -
  have h: "length (buffer zero_ctx) = SHA512_256_BLOCK_SIZE"
    by (simp add: zero_ctx_def SHA512_256_BLOCK_SIZE_def)
  show ?thesis
    using h empty_message_digest [OF h, of False] by (simp only: simp_thms)
qed

text \<open>
  The text that the specification prints for this digest has 63 hexadecimal digits, the
  last digit is missing: it is not the hexadecimal form of what the finish yields.
\<close>

theorem empty_message_hex_counterexample:
  "hex_encode (fst (MHD_SHA512_256_finish False (MHD_SHA512_256_init zero_ctx)))
     \<noteq> ''c672b8d1ef56ed28ab87c3622c5114069bdd3ad7b8f9737498d0c01ecef0967''"
proof -
  have "length (buffer zero_ctx) = 128"
    by (simp add: zero_ctx_def)
  then show ?thesis
    by (simp add: finish_init_hex)
qed

end
